theory Spec2Isabelle
  imports Complex_Main
begin

section \<open>Strings\<close>

text \<open>
  A JavaScript string is modelled as a \<open>string\<close>: one \<open>char\<close> per code unit, for
  code units below 256. All character classes that the generator's regular expressions
  use (\<open>\d\<close>, \<open>[a-z]\<close>, \<open>[a-f0-9]\<close>, \<open>\s\<close>) lie in that range, and in the
  non-unicode mode the source uses, the \<open>i\<close> flag relates ASCII letters to ASCII letters only.
\<close>

definition is_digit :: "char \<Rightarrow> bool" where
  "is_digit c = (c \<in> set ''0123456789'')"

definition is_lower :: "char \<Rightarrow> bool" where
  "is_lower c = (c \<in> set ''abcdefghijklmnopqrstuvwxyz'')"

definition is_upper :: "char \<Rightarrow> bool" where
  "is_upper c = (c \<in> set ''ABCDEFGHIJKLMNOPQRSTUVWXYZ'')"

definition is_alpha :: "char \<Rightarrow> bool" where
  \<comment> \<open>\<open>[a-z]\<close> under the \<open>i\<close> flag\<close>
  "is_alpha c = (is_lower c \<or> is_upper c)"

definition is_alnum :: "char \<Rightarrow> bool" where
  \<comment> \<open>\<open>[a-z0-9]\<close> under the \<open>i\<close> flag\<close>
  "is_alnum c = (is_alpha c \<or> is_digit c)"

definition is_hex :: "char \<Rightarrow> bool" where
  \<comment> \<open>\<open>[a-f0-9]\<close> under the \<open>i\<close> flag\<close>
  "is_hex c = (c \<in> set ''0123456789abcdefABCDEF'')"

definition is_vowel :: "char \<Rightarrow> bool" where
  \<comment> \<open>\<open>[aeiou]\<close> under the \<open>i\<close> flag\<close>
  "is_vowel c = (c \<in> set ''aeiouAEIOU'')"

definition is_space :: "char \<Rightarrow> bool" where
  \<comment> \<open>\<open>\s\<close> and the characters \<open>trim\<close> strips, below 256: TAB, LF, VT, FF, CR, space, NBSP\<close>
  "is_space c = (c \<in> {char_of (9::nat), char_of (10::nat), char_of (11::nat), char_of (12::nat),
                        char_of (13::nat), char_of (32::nat), char_of (160::nat)})"

definition lower_char :: "char \<Rightarrow> char" where
  "lower_char c =
     (case map_of (zip ''ABCDEFGHIJKLMNOPQRSTUVWXYZ'' ''abcdefghijklmnopqrstuvwxyz'') c of
        Some l \<Rightarrow> l | None \<Rightarrow> c)"

definition toLowerCase :: "string \<Rightarrow> string" where
  "toLowerCase s = map lower_char s"

definition starts_with :: "string \<Rightarrow> string \<Rightarrow> bool" where
  \<comment> \<open>\<open>/^p/\<close>\<close>
  "starts_with p s = (take (length p) s = p)"

definition starts_with_ci :: "string \<Rightarrow> string \<Rightarrow> bool" where
  \<comment> \<open>\<open>/^p/i\<close>, for a lower-case \<open>p\<close>\<close>
  "starts_with_ci p s = (toLowerCase (take (length p) s) = p)"

fun str_includes :: "string \<Rightarrow> string \<Rightarrow> bool" where
  \<comment> \<open>\<open>s.includes(p)\<close>\<close>
  "str_includes p [] = (p = [])"
| "str_includes p (c # cs) = (starts_with p (c # cs) \<or> str_includes p cs)"

definition all_digits :: "string \<Rightarrow> bool" where
  \<comment> \<open>\<open>/^\d+$/\<close>\<close>
  "all_digits s = (s \<noteq> [] \<and> list_all is_digit s)"

definition trim :: "string \<Rightarrow> string" where
  "trim s = rev (dropWhile is_space (rev (dropWhile is_space s)))"

fun join :: "string \<Rightarrow> string list \<Rightarrow> string" where
  \<comment> \<open>\<open>xs.join(sep)\<close>\<close>
  "join sep [] = []"
| "join sep [x] = x"
| "join sep (x # y # ys) = x @ sep @ join sep (y # ys)"

fun split_ws :: "string \<Rightarrow> string \<Rightarrow> string list" where
  \<comment> \<open>\<open>s.split(/\s+/)\<close> on a trimmed string, with the word read so far in reverse;
      the empty token of an empty input is dropped, which \<open>isStableClass\<close> rejects anyway\<close>
  "split_ws acc [] = (if acc = [] then [] else [rev acc])"
| "split_ws acc (c # cs) =
     (if is_space c then (if acc = [] then split_ws [] cs else rev acc # split_ws [] cs)
      else split_ws (c # acc) cs)"

definition digit_char :: "nat \<Rightarrow> char" where
  "digit_char n = ''0123456789'' ! (n mod 10)"

fun string_of_nat :: "nat \<Rightarrow> string" where
  \<comment> \<open>the decimal numeral that a template literal prints for a position\<close>
  "string_of_nat n =
     (if n < 10 then [digit_char n] else string_of_nat (n div 10) @ [digit_char n])"

section \<open>Stability classifier\<close>

definition word_dash_digits :: "nat \<Rightarrow> string \<Rightarrow> bool" where
  \<comment> \<open>\<open>/^[a-z]+-\d{n,}$/i\<close> for \<open>n \<ge> 1\<close>: the run of letters is maximal because
      the hyphen is no letter\<close>
  "word_dash_digits n s =
     (takeWhile is_alpha s \<noteq> [] \<and>
      (case dropWhile is_alpha s of
         [] \<Rightarrow> False
       | c # ds \<Rightarrow> c = CHR ''-'' \<and> n \<le> length ds \<and> ds \<noteq> [] \<and> list_all is_digit ds))"

definition dynamicIdPatterns :: "(string \<Rightarrow> bool) list" where
  \<comment> \<open>in the order of the source:
      \<open>/^\d{8}$/i\<close>, \<open>/^ember\d+$/i\<close>, \<open>/^react-[a-z]+-\d+$/i\<close>, \<open>/^ng-[a-z]+-\d+$/i\<close>,
      \<open>/^vue-[a-z]+-\d+$/i\<close>, \<open>/^jsx-\d+$/i\<close>, \<open>/^[a-z]+-\d{3,}$/i\<close>, \<open>/^[a-f0-9]{8,}$/i\<close>,
      \<open>/^uid-/i\<close>, \<open>/^gen-/i\<close>, \<open>/^auto-/i\<close>\<close>
  "dynamicIdPatterns =
    [\<lambda>s. length s = 8 \<and> list_all is_digit s,
     \<lambda>s. starts_with_ci ''ember'' s \<and> all_digits (drop 5 s),
     \<lambda>s. starts_with_ci ''react-'' s \<and> word_dash_digits 1 (drop 6 s),
     \<lambda>s. starts_with_ci ''ng-'' s \<and> word_dash_digits 1 (drop 3 s),
     \<lambda>s. starts_with_ci ''vue-'' s \<and> word_dash_digits 1 (drop 4 s),
     \<lambda>s. starts_with_ci ''jsx-'' s \<and> all_digits (drop 4 s),
     \<lambda>s. word_dash_digits 3 s,
     \<lambda>s. 8 \<le> length s \<and> list_all is_hex s,
     \<lambda>s. starts_with_ci ''uid-'' s,
     \<lambda>s. starts_with_ci ''gen-'' s,
     \<lambda>s. starts_with_ci ''auto-'' s]"

definition isStableId :: "string \<Rightarrow> bool" where
  "isStableId ident =
     (if ident = [] then False else \<not> list_ex (\<lambda>pattern. pattern ident) dynamicIdPatterns)"

definition trailing_underscore_run :: "string \<Rightarrow> bool" where
  \<comment> \<open>\<open>/_[a-z0-9]{5,}$/i\<close>: the underscore is no alphanumeric, so it stands right before
      the maximal alphanumeric run that ends the string\<close>
  "trailing_underscore_run s =
     (5 \<le> length (takeWhile is_alnum (rev s)) \<and>
      (case dropWhile is_alnum (rev s) of [] \<Rightarrow> False | c # _ \<Rightarrow> c = CHR ''_''))"

definition letters_then_digits :: "string \<Rightarrow> bool" where
  \<comment> \<open>\<open>/^[a-z]{1,2}\d+$/i\<close>\<close>
  "letters_then_digits s =
     (1 \<le> length (takeWhile is_alpha s) \<and> length (takeWhile is_alpha s) \<le> 2 \<and>
      all_digits (dropWhile is_alpha s))"

definition unstablePatterns :: "(string \<Rightarrow> bool) list" where
  \<comment> \<open>in the order of the source:
      \<open>/^css-/\<close>, \<open>/^jsx-/\<close>, \<open>/^sc-/\<close>, \<open>/^makeStyles-/\<close>, \<open>/^jss\d+/\<close>,
      \<open>/_[a-z0-9]{5,}$/i\<close>, \<open>/^[a-z]{1,2}\d+$/i\<close>, \<open>/^\d/\<close>\<close>
  "unstablePatterns =
    [starts_with ''css-'',
     starts_with ''jsx-'',
     starts_with ''sc-'',
     starts_with ''makeStyles-'',
     \<lambda>s. starts_with ''jss'' s \<and> (case drop 3 s of [] \<Rightarrow> False | c # _ \<Rightarrow> is_digit c),
     trailing_underscore_run,
     letters_then_digits,
     \<lambda>s. (case s of [] \<Rightarrow> False | c # _ \<Rightarrow> is_digit c)]"

definition vowelCount :: "string \<Rightarrow> nat" where
  \<comment> \<open>\<open>(className.match(/[aeiou]/gi) || []).length\<close>\<close>
  "vowelCount s = length (filter is_vowel s)"

definition isStableClass :: "string \<Rightarrow> bool" where
  \<comment> \<open>The third test is \<open>/^[a-z]{6,}$/i\<close>. The source compares the double
      \<open>vowelCount / className.length\<close> with \<open>0.3\<close>. Both sides round to the nearest
      double, the quotient of two naturals below \<open>2^53\<close> differs from \<open>3/10\<close> by at
      least \<open>1 / (10 * length)\<close> unless it equals it, and \<open>3/10\<close> rounds to the literal,
      so the comparison is the exact one written here.\<close>
  "isStableClass className =
     (if className = [] then False
      else if list_ex (\<lambda>pattern. pattern className) unstablePatterns then False
      else if 6 \<le> length className \<and> list_all is_alpha className
      then 3 * length className \<le> 10 * vowelCount className
      else True)"

definition isDistinctiveClass :: "string \<Rightarrow> bool" where
  \<comment> \<open>\<open>className.length >= 5 && (className.includes('-') || /^[a-z][a-z]/.test(className))
      && !className.match(/^[a-z]\d/)\<close>\<close>
  "isDistinctiveClass className =
     (5 \<le> length className \<and>
      (str_includes ''-'' className \<or>
       (case className of a # b # _ \<Rightarrow> is_lower a \<and> is_lower b | _ \<Rightarrow> False)) \<and>
      \<not> (case className of a # b # _ \<Rightarrow> is_lower a \<and> is_digit b | _ \<Rightarrow> False))"

definition uuid_shape :: "string \<Rightarrow> bool" where
  \<comment> \<open>\<open>/^[a-f0-9]{8}-[a-f0-9]{4}-[a-f0-9]{4}-[a-f0-9]{4}-[a-f0-9]{12}$/i\<close>\<close>
  "uuid_shape s =
     (length s = 36 \<and>
      list_all (\<lambda>i. if i \<in> set [8, 13, 18, 23] then s ! i = CHR ''-'' else is_hex (s ! i))
        [0 ..< 36])"

definition isDataSpecificValue :: "string \<Rightarrow> string \<Rightarrow> bool" where
  "isDataSpecificValue attr v =
     (if v = [] then False
      else if all_digits v then True
      else if uuid_shape v then True
      else if 30 < length v \<and> list_all is_alnum v then True
      else False)"

fun thousands_group :: "string \<Rightarrow> bool" where
  \<comment> \<open>\<open>/\d{1,3}(,\d{3})+/\<close> matches somewhere: some digit is followed by a comma and three digits\<close>
  "thousands_group (a # b # c # d # e # cs) =
     ((is_digit a \<and> b = CHR '','' \<and> is_digit c \<and> is_digit d \<and> is_digit e) \<or>
      thousands_group (b # c # d # e # cs))"
| "thousands_group _ = False"

definition looksLikeUserData :: "string \<Rightarrow> bool" where
  "looksLikeUserData text =
     (if all_digits (trim text) then True
      else if thousands_group text then True
      else if 50 < length text then True
      else False)"

section \<open>The document tree\<close>

text \<open>
  The host's tree: a node is a text node or an element with its kind (an
  \<open>HTMLElement\<close>, an \<open>SVGElement\<close>, or another element such as MathML), its tag
  name, its attributes and its child nodes. A node reference is the path of child indices that leads to the
  node, innermost index first, so the root element (\<open>document.documentElement\<close>) is
  \<open>[]\<close> and the parent of \<open>i # p\<close> is \<open>p\<close>. Two references are the same node
  exactly when the paths are equal, and every chain of parents ends at the root.
\<close>

datatype kind = HtmlElement | SvgElement | OtherElement

datatype dom = Text string | Element kind string "(string \<times> string) list" "dom list"

type_synonym node = "nat list"

fun descend :: "dom \<Rightarrow> nat list \<Rightarrow> dom option" where
  "descend t [] = Some t"
| "descend (Text s) (i # is) = None"
| "descend (Element k tg as cs) (i # is) = (if i < length cs then descend (cs ! i) is else None)"

definition lookup :: "dom \<Rightarrow> node \<Rightarrow> dom option" where
  "lookup d n = descend d (rev n)"

fun is_element :: "dom \<Rightarrow> bool" where
  "is_element (Element k tg as cs) = True"
| "is_element (Text s) = False"

definition isHTMLElement :: "dom \<Rightarrow> node \<Rightarrow> bool" where
  \<comment> \<open>\<open>element && element instanceof HTMLElement\<close>\<close>
  "isHTMLElement d n =
     (case lookup d n of Some (Element k tg as cs) \<Rightarrow> k = HtmlElement | _ \<Rightarrow> False)"

definition documentElement :: node where
  "documentElement = []"

definition tagName :: "dom \<Rightarrow> node \<Rightarrow> string" where
  "tagName d n = (case lookup d n of Some (Element k tg as cs) \<Rightarrow> tg | _ \<Rightarrow> [])"

definition attributes :: "dom \<Rightarrow> node \<Rightarrow> (string \<times> string) list" where
  "attributes d n = (case lookup d n of Some (Element k tg as cs) \<Rightarrow> as | _ \<Rightarrow> [])"

definition childNodes :: "dom \<Rightarrow> node \<Rightarrow> dom list" where
  "childNodes d n = (case lookup d n of Some (Element k tg as cs) \<Rightarrow> cs | _ \<Rightarrow> [])"

definition getAttribute :: "dom \<Rightarrow> node \<Rightarrow> string \<Rightarrow> string option" where
  "getAttribute d n a = map_of (attributes d n) a"

definition hasAttribute :: "dom \<Rightarrow> node \<Rightarrow> string \<Rightarrow> bool" where
  "hasAttribute d n a = (getAttribute d n a \<noteq> None)"

definition element_id :: "dom \<Rightarrow> node \<Rightarrow> string" where
  \<comment> \<open>\<open>element.id\<close>: the empty string when the attribute is absent\<close>
  "element_id d n = (case getAttribute d n ''id'' of Some v \<Rightarrow> v | None \<Rightarrow> [])"

definition className :: "dom \<Rightarrow> node \<Rightarrow> string option" where
  \<comment> \<open>\<open>element.className\<close> when it is a string: an SVG element answers with an
      \<open>SVGAnimatedString\<close> object instead, and \<open>None\<close> stands for that\<close>
  "className d n =
     (case lookup d n of
        Some (Element k tg as cs) \<Rightarrow>
          if k = SvgElement then None
          else Some (case map_of as ''class'' of Some v \<Rightarrow> v | None \<Rightarrow> [])
      | _ \<Rightarrow> None)"

definition has_class_string :: "dom \<Rightarrow> node \<Rightarrow> bool" where
  \<comment> \<open>\<open>element.className && typeof element.className === 'string'\<close>\<close>
  "has_class_string d n = (case className d n of Some v \<Rightarrow> v \<noteq> [] | None \<Rightarrow> False)"

definition parentElement :: "node \<Rightarrow> node option" where
  "parentElement n = (case n of [] \<Rightarrow> None | i # p \<Rightarrow> Some p)"

definition children :: "dom \<Rightarrow> node \<Rightarrow> node list" where
  \<comment> \<open>\<open>parent.children\<close>: the child nodes that are elements, in order\<close>
  "children d n =
     map (\<lambda>i. i # n) (filter (\<lambda>i. is_element (childNodes d n ! i)) [0 ..< length (childNodes d n)])"

definition previousElementSibling :: "dom \<Rightarrow> node \<Rightarrow> node option" where
  "previousElementSibling d n =
     (case n of
        [] \<Rightarrow> None
      | i # p \<Rightarrow>
          (case filter (\<lambda>j. is_element (childNodes d p ! j)) (rev [0 ..< i]) of
             [] \<Rightarrow> None
           | j # _ \<Rightarrow> Some (j # p)))"

fun text_of :: "dom \<Rightarrow> string" where
  "text_of (Text s) = s"
| "text_of (Element k tg as cs) = concat (map text_of cs)"

definition textContent :: "dom \<Rightarrow> node \<Rightarrow> string" where
  "textContent d n = (case lookup d n of Some t \<Rightarrow> text_of t | None \<Rightarrow> [])"

fun indexOf :: "'a \<Rightarrow> 'a list \<Rightarrow> int" where
  \<comment> \<open>\<open>xs.indexOf(x)\<close>, \<open>-1\<close> when \<open>x\<close> is absent\<close>
  "indexOf x [] = - 1"
| "indexOf x (y # ys) =
     (if x = y then 0 else (let i = indexOf x ys in if i < 0 then - 1 else i + 1))"

definition getElementPosition :: "dom \<Rightarrow> node \<Rightarrow> nat" where
  "getElementPosition d element =
     (case parentElement element of
        None \<Rightarrow> 1
      | Some parent \<Rightarrow>
          nat (indexOf element
                 (filter (\<lambda>child. tagName d child = tagName d element) (children d parent)) + 1))"

definition getSiblingsByTag :: "dom \<Rightarrow> node \<Rightarrow> nat" where
  "getSiblingsByTag d element =
     (case parentElement element of
        None \<Rightarrow> 1
      | Some parent \<Rightarrow>
          length (filter (\<lambda>child. tagName d child = tagName d element) (children d parent)))"

section \<open>The generator and its host\<close>

datatype error = InvalidElement | EvaluationError | TypeError

datatype strategy =
  StableAnchor | StableAttribute | Structural | Sibling | IncrementalBuildUp | FallbackPath

text \<open>
  One call of \<open>generate\<close> runs against a document, the host's query evaluator
  (\<open>document.evaluate\<close>, which returns the matching nodes in document order or throws),
  the generator's two options, the clock reading taken when the call starts, and the
  later readings of \<open>Date.now()\<close>: the incremental and the fallback walk each read the
  clock once per iteration, and the iteration is named by its depth counter.
\<close>

record env =
  doc :: dom
  evaluate :: "string \<Rightarrow> error + node list"
  maxDepth :: nat
  timeout :: int
  startTime :: int
  now :: "strategy \<Rightarrow> nat \<Rightarrow> int"

definition isTimeout :: "env \<Rightarrow> strategy \<Rightarrow> nat \<Rightarrow> bool" where
  "isTimeout e s depth = (now e s depth - startTime e > timeout e)"

definition structuralAttributes :: "string list" where
  "structuralAttributes =
     [''data-testid'', ''data-test'', ''name'', ''role'', ''type'', ''aria-label'', ''aria-labelledby'']"

definition semanticLandmarks :: "string list" where
  "semanticLandmarks =
     [''main'', ''nav'', ''header'', ''footer'', ''aside'', ''article'', ''section'', ''form'']"

definition implicitElements :: "string list" where
  "implicitElements = [''tbody'', ''thead'', ''tfoot'']"

subsection \<open>Match validator\<close>

definition isUniqueSelector :: "env \<Rightarrow> string \<Rightarrow> bool" where
  "isUniqueSelector e xpath =
     (case evaluate e xpath of Inl err \<Rightarrow> False | Inr result \<Rightarrow> length result = 1)"

definition validateSelector :: "env \<Rightarrow> string \<Rightarrow> node \<Rightarrow> bool" where
  "validateSelector e xpath targetElement =
     (case evaluate e xpath of
        Inl err \<Rightarrow> False
      | Inr result \<Rightarrow> (case result of [] \<Rightarrow> False | first # _ \<Rightarrow> first = targetElement))"

definition unique_and_valid :: "env \<Rightarrow> string \<Rightarrow> node \<Rightarrow> bool" where
  \<comment> \<open>\<open>this.isUniqueSelector(xpath) && this.validateSelector(xpath, element)\<close>\<close>
  "unique_and_valid e xpath element = (isUniqueSelector e xpath \<and> validateSelector e xpath element)"

definition getElementByXPath :: "env \<Rightarrow> string \<Rightarrow> error + node option" where
  \<comment> \<open>the exported lookup calls the evaluator outside any \<open>try\<close>\<close>
  "getElementByXPath e xpath =
     (case evaluate e xpath of
        Inl err \<Rightarrow> Inl err
      | Inr result \<Rightarrow> Inr (case result of [] \<Rightarrow> None | first # _ \<Rightarrow> Some first))"

subsection \<open>Attributes, classes and segments\<close>

definition dquote :: char where
  "dquote = CHR 0x22"

definition squote :: char where
  "squote = CHR 0x27"

definition backslash :: char where
  "backslash = CHR 0x5C"

fun split_char :: "char \<Rightarrow> string \<Rightarrow> string list" where
  \<comment> \<open>\<open>s.split(c)\<close> for a one-character separator\<close>
  "split_char c [] = [[]]"
| "split_char c (x # xs) =
     (if x = c then [] # split_char c xs
      else (case split_char c xs of [] \<Rightarrow> [[x]] | p # ps \<Rightarrow> (x # p) # ps))"

definition replace_char :: "char \<Rightarrow> string \<Rightarrow> string \<Rightarrow> string" where
  \<comment> \<open>\<open>s.replace(/c/g, rep)\<close>\<close>
  "replace_char c rep s = concat (map (\<lambda>x. if x = c then rep else [x]) s)"

definition escapeXPath :: "string \<Rightarrow> string" where
  "escapeXPath v =
     (if v = [] then []
      else if str_includes [dquote] v \<and> str_includes [squote] v then
        ''concat('' @
        join ('', '' @ [squote, dquote, squote] @ '', '')
          (map (\<lambda>part. [dquote] @ part @ [dquote]) (split_char dquote v)) @
        '')''
      else if str_includes [dquote] v then replace_char squote [backslash, squote] v
      else replace_char dquote [backslash, dquote] v)"

definition hyphens :: "string \<Rightarrow> nat" where
  \<comment> \<open>\<open>(a.match(/-/g) || []).length\<close>\<close>
  "hyphens a = length (filter (\<lambda>c. c = CHR ''-'') a)"

definition class_before :: "string \<Rightarrow> string \<Rightarrow> bool" where
  \<comment> \<open>the comparator of \<open>getStableClass\<close> is negative: more hyphens first, then longer first\<close>
  "class_before a b =
     (if hyphens a \<noteq> hyphens b then hyphens b < hyphens a else length b < length a)"

fun insert_stable :: "('a \<Rightarrow> 'a \<Rightarrow> bool) \<Rightarrow> 'a \<Rightarrow> 'a list \<Rightarrow> 'a list" where
  "insert_stable before x [] = [x]"
| "insert_stable before x (y # ys) =
     (if before y x then y # insert_stable before x ys else x # y # ys)"

definition sort_stable :: "('a \<Rightarrow> 'a \<Rightarrow> bool) \<Rightarrow> 'a list \<Rightarrow> 'a list" where
  \<comment> \<open>\<open>Array.prototype.sort\<close> is stable: elements that compare equal keep their order\<close>
  "sort_stable before xs = foldr (insert_stable before) xs []"

definition getStableClass :: "dom \<Rightarrow> node \<Rightarrow> string option" where
  "getStableClass d element =
     (case className d element of
        None \<Rightarrow> None
      | Some v \<Rightarrow>
          if v = [] then None
          else
            (let allClasses = split_ws [] (trim v);
                 stableClasses = filter isStableClass allClasses;
                 sorted = sort_stable class_before stableClasses
             in case sorted of [] \<Rightarrow> None | result # _ \<Rightarrow> Some result))"

definition getStableAttributes :: "dom \<Rightarrow> node \<Rightarrow> (string \<times> string) list" where
  "getStableAttributes d element =
     List.map_filter
       (\<lambda>attr. case getAttribute d element attr of
                 None \<Rightarrow> None
               | Some v \<Rightarrow> if v \<noteq> [] \<and> \<not> isDataSpecificValue attr v then Some (attr, v) else None)
       structuralAttributes"

definition getStableAttribute :: "dom \<Rightarrow> node \<Rightarrow> (string \<times> string) option" where
  "getStableAttribute d element =
     (case getStableAttributes d element of [] \<Rightarrow> None | a # _ \<Rightarrow> Some a)"

definition attr_equals :: "string \<Rightarrow> string \<Rightarrow> string \<Rightarrow> string" where
  \<comment> \<open>the template \<open>${tag}[@${name}="${this.escapeXPath(value)}"]\<close>\<close>
  "attr_equals tag name v =
     tag @ ''[@'' @ name @ ''='' @ [dquote] @ escapeXPath v @ [dquote] @ '']''"

definition class_contains :: "string \<Rightarrow> string \<Rightarrow> string" where
  \<comment> \<open>the template \<open>${tag}[contains(@class, "${this.escapeXPath(stableClass)}")]\<close>\<close>
  "class_contains tag c =
     tag @ ''[contains(@class, '' @ [dquote] @ escapeXPath c @ [dquote] @ '')]''"

definition positioned :: "string \<Rightarrow> nat \<Rightarrow> string" where
  \<comment> \<open>the template \<open>${tag}[${position}]\<close>\<close>
  "positioned tag position = tag @ ''['' @ string_of_nat position @ '']''"

definition getMinimalSegment :: "dom \<Rightarrow> node \<Rightarrow> string" where
  "getMinimalSegment d element =
     (let tag = toLowerCase (tagName d element) in
      case getStableAttribute d element of
        Some (name, v) \<Rightarrow> attr_equals tag name v
      | None \<Rightarrow>
          if getSiblingsByTag d element = 1 then tag
          else positioned tag (getElementPosition d element))"

definition getDistinctiveSegment :: "dom \<Rightarrow> node \<Rightarrow> string" where
  "getDistinctiveSegment d element =
     (let tag = toLowerCase (tagName d element) in
      if element_id d element \<noteq> [] \<and> isStableId (element_id d element)
      then attr_equals tag ''id'' (element_id d element)
      else
        (case getStableAttribute d element of
           Some (name, v) \<Rightarrow> attr_equals tag name v
         | None \<Rightarrow>
             (case getStableClass d element of
                Some stableClass \<Rightarrow>
                  if isDistinctiveClass stableClass then class_contains tag stableClass
                  else if 1 < getSiblingsByTag d element \<and>
                          tag \<in> set [''div'', ''span'', ''li'', ''td'', ''dd'', ''dt'']
                  then positioned tag (getElementPosition d element)
                  else tag
              | None \<Rightarrow>
                  if 1 < getSiblingsByTag d element \<and>
                     tag \<in> set [''div'', ''span'', ''li'', ''td'', ''dd'', ''dt'']
                  then positioned tag (getElementPosition d element)
                  else tag)))"

subsection \<open>Strategy 1: stable anchor\<close>

fun findDistinctiveContainer_loop :: "dom \<Rightarrow> node \<Rightarrow> nat \<Rightarrow> node option" where
  \<comment> \<open>the loop runs while \<open>current\<close> is an element other than the root and \<open>depth < 6\<close>\<close>
  "findDistinctiveContainer_loop d [] depth = None"
| "findDistinctiveContainer_loop d (i # p) depth =
     (if \<not> depth < 6 then None
      else if has_class_string d (i # p) \<and>
              (case getStableClass d (i # p) of
                 Some stableClass \<Rightarrow> isDistinctiveClass stableClass
               | None \<Rightarrow> False)
      then Some (i # p)
      else if element_id d (i # p) \<noteq> [] \<and> isStableId (element_id d (i # p)) then Some (i # p)
      else if toLowerCase (tagName d (i # p)) \<in> set semanticLandmarks then Some (i # p)
      else findDistinctiveContainer_loop d p (Suc depth))"

definition findDistinctiveContainer :: "dom \<Rightarrow> node \<Rightarrow> node option" where
  "findDistinctiveContainer d element =
     (case parentElement element of
        None \<Rightarrow> None
      | Some current \<Rightarrow> findDistinctiveContainer_loop d current 0)"

definition findPositionAmongSiblings :: "env \<Rightarrow> string \<Rightarrow> node \<Rightarrow> nat option" where
  "findPositionAmongSiblings e distinctivePath targetElement =
     (case evaluate e distinctivePath of
        Inl err \<Rightarrow> None
      | Inr allMatches \<Rightarrow>
          if length allMatches = 0 then None
          else if indexOf targetElement allMatches < 0 then None
          else Some (nat (indexOf targetElement allMatches + 1)))"

fun buildPathToTarget_loop :: "dom \<Rightarrow> node \<Rightarrow> node \<Rightarrow> string list \<Rightarrow> string list" where
  \<comment> \<open>the loop runs while \<open>current\<close> is an element other than the container; after the
      root the parent is \<open>null\<close>\<close>
  "buildPathToTarget_loop d container [] path =
     (if [] = container then path
      else if toLowerCase (tagName d []) \<in> set implicitElements then path
      else toLowerCase (tagName d []) # path)"
| "buildPathToTarget_loop d container (i # p) path =
     (if i # p = container then path
      else if toLowerCase (tagName d (i # p)) \<in> set implicitElements
      then buildPathToTarget_loop d container p path
      else if 4 < length (toLowerCase (tagName d (i # p)) # path)
      then toLowerCase (tagName d (i # p)) # path
      else buildPathToTarget_loop d container p (toLowerCase (tagName d (i # p)) # path))"

definition buildPathToTarget :: "dom \<Rightarrow> node \<Rightarrow> node \<Rightarrow> string option" where
  "buildPathToTarget d element container =
     (let path = buildPathToTarget_loop d container element []
      in if 0 < length path then Some (join ''/'' path) else None)"

definition tryStableAnchorPath :: "env \<Rightarrow> node \<Rightarrow> string option" where
  "tryStableAnchorPath e element =
     (let tag = toLowerCase (tagName (doc e) element);
          simpleTag = ''//'' @ tag
      in
      if unique_and_valid e simpleTag element then Some simpleTag
      else
        (case List.find (\<lambda>landmarkPath. unique_and_valid e landmarkPath element)
                (map (\<lambda>landmark. ''//'' @ landmark @ ''//'' @ tag) semanticLandmarks) of
           Some landmarkPath \<Rightarrow> Some landmarkPath
         | None \<Rightarrow>
             (case findDistinctiveContainer (doc e) element of
                None \<Rightarrow> None
              | Some container \<Rightarrow>
                  (let containerSegment = getDistinctiveSegment (doc e) container in
                   if containerSegment = [] then None
                   else
                     (case buildPathToTarget (doc e) element container of
                        None \<Rightarrow> None
                      | Some targetPath \<Rightarrow>
                          if targetPath = [] then None
                          else
                            (let distinctivePath = ''//'' @ containerSegment @ ''//'' @ targetPath in
                             case findPositionAmongSiblings e distinctivePath element of
                               None \<Rightarrow> None
                             | Some position \<Rightarrow>
                                 (let positionalXpath =
                                        ''('' @ distinctivePath @ '')['' @ string_of_nat position @ '']''
                                  in if unique_and_valid e positionalXpath element
                                     then Some positionalXpath else None)))))))"

subsection \<open>Strategies 2 to 4: stable attribute, structural position, sibling relationship\<close>

definition tryStableAttributePath :: "env \<Rightarrow> node \<Rightarrow> string option" where
  "tryStableAttributePath e element =
     (let tag = toLowerCase (tagName (doc e) element) in
      case List.find (\<lambda>xpath. unique_and_valid e xpath element)
             (List.map_filter
                (\<lambda>attr. case getAttribute (doc e) element attr of
                          None \<Rightarrow> None
                        | Some v \<Rightarrow>
                            if v \<noteq> [] \<and> \<not> isDataSpecificValue attr v
                            then Some (''//'' @ attr_equals tag attr v) else None)
                structuralAttributes) of
        Some xpath \<Rightarrow> Some xpath
      | None \<Rightarrow>
          (case getStableClass (doc e) element of
             None \<Rightarrow> None
           | Some stableClass \<Rightarrow>
               if isDistinctiveClass stableClass \<and>
                  unique_and_valid e (''//'' @ class_contains tag stableClass) element
               then Some (''//'' @ class_contains tag stableClass)
               else None))"

definition tryStructuralPath :: "env \<Rightarrow> node \<Rightarrow> string option" where
  "tryStructuralPath e element =
     (let tag = toLowerCase (tagName (doc e) element);
          position = getElementPosition (doc e) element;
          siblings = getSiblingsByTag (doc e) element
      in
      if 1 < siblings \<and> unique_and_valid e (''//'' @ positioned tag position) element
      then Some (''//'' @ positioned tag position)
      else if has_class_string (doc e) element then
        (case getStableClass (doc e) element of
           None \<Rightarrow> None
         | Some stableClass \<Rightarrow>
             if isDistinctiveClass stableClass \<and>
                unique_and_valid e (''//'' @ class_contains tag stableClass) element
             then Some (''//'' @ class_contains tag stableClass)
             else None)
      else None)"

definition sibling_xpath :: "string \<Rightarrow> string" where
  \<comment> \<open>the template
      \<open>//dt[contains(text(), "${this.escapeXPath(labelText)}")]/following-sibling::dd[1]\<close>\<close>
  "sibling_xpath labelText =
     ''//dt[contains(text(), '' @ [dquote] @ escapeXPath labelText @ [dquote] @
     '')]/following-sibling::dd[1]''"

definition trySiblingRelationshipPath :: "env \<Rightarrow> node \<Rightarrow> string option" where
  "trySiblingRelationshipPath e element =
     (let tag = toLowerCase (tagName (doc e) element) in
      case previousElementSibling (doc e) element of
        None \<Rightarrow> None
      | Some previousSibling \<Rightarrow>
          (let prevTag = toLowerCase (tagName (doc e) previousSibling) in
           if tag = ''dd'' \<and> prevTag = ''dt'' then
             (let labelText = trim (textContent (doc e) previousSibling) in
              if labelText \<noteq> [] \<and> length labelText < 30 \<and> 3 < length labelText \<and>
                 \<not> looksLikeUserData labelText \<and>
                 unique_and_valid e (sibling_xpath labelText) element
              then Some (sibling_xpath labelText)
              else None)
           else None))"

subsection \<open>Strategy 5: incremental build-up\<close>

definition from_segments :: "string list \<Rightarrow> string" where
  \<comment> \<open>\<open>'//' + segments.join('//')\<close>\<close>
  "from_segments segments = ''//'' @ join ''//'' segments"

fun buildIncrementalPath_loop ::
  "env \<Rightarrow> node \<Rightarrow> string \<Rightarrow> node \<Rightarrow> nat \<Rightarrow> string list \<Rightarrow> string option" where
  \<comment> \<open>the arguments after the element and its own segment are \<open>current\<close>, \<open>depth\<close> and
      \<open>segments\<close>; leaving the loop returns \<open>finalPath\<close>, a timeout returns \<open>null\<close>\<close>
  "buildIncrementalPath_loop e element currentSegment [] depth segments =
     Some (from_segments segments)"
| "buildIncrementalPath_loop e element currentSegment (i # p) depth segments =
     (if \<not> depth < maxDepth e then Some (from_segments segments)
      else if isTimeout e IncrementalBuildUp depth then None
      else
        (let parentTag = toLowerCase (tagName (doc e) (i # p)) in
         if parentTag \<in> set implicitElements
         then buildIncrementalPath_loop e element currentSegment p (Suc depth) segments
         else
           (let parentSegment =
                  (if 1 < getSiblingsByTag (doc e) (i # p)
                   then positioned parentTag (getElementPosition (doc e) (i # p))
                   else if element_id (doc e) (i # p) \<noteq> [] \<and> isStableId (element_id (doc e) (i # p))
                   then attr_equals parentTag ''id'' (element_id (doc e) (i # p))
                   else parentTag)
            in
            if unique_and_valid e (''//'' @ parentTag @ ''//'' @ currentSegment) element
            then Some (''//'' @ parentTag @ ''//'' @ currentSegment)
            else if unique_and_valid e (''//'' @ parentSegment @ ''//'' @ currentSegment) element
            then Some (''//'' @ parentSegment @ ''//'' @ currentSegment)
            else if unique_and_valid e (from_segments (parentSegment # segments)) element
            then Some (from_segments (parentSegment # segments))
            else if parentTag \<in> set semanticLandmarks then
              (if unique_and_valid e (''//'' @ parentTag @ ''//'' @ currentSegment) element
               then Some (''//'' @ parentTag @ ''//'' @ currentSegment)
               else Some (from_segments (parentSegment # segments)))
            else buildIncrementalPath_loop e element currentSegment p (Suc depth)
                   (parentSegment # segments))))"

definition buildIncrementalPath_from :: "env \<Rightarrow> node \<Rightarrow> string option" where
  \<comment> \<open>the body of \<open>buildIncrementalPath\<close> for an element that is not implicit\<close>
  "buildIncrementalPath_from e element =
     (let tag = toLowerCase (tagName (doc e) element);
          currentSegment =
            (if getSiblingsByTag (doc e) element = 1 then tag
             else positioned tag (getElementPosition (doc e) element))
      in
      if unique_and_valid e (''//'' @ currentSegment) element then Some (''//'' @ currentSegment)
      else
        (case parentElement element of
           None \<Rightarrow> Some (from_segments [currentSegment])
         | Some current \<Rightarrow>
             buildIncrementalPath_loop e element currentSegment current 0 [currentSegment]))"

fun buildIncrementalPath :: "env \<Rightarrow> node \<Rightarrow> error + string option" where
  \<comment> \<open>an implicit element hands over to its parent; at the root that parent is \<open>null\<close>
      and reading its tag name throws\<close>
  "buildIncrementalPath e [] =
     (if toLowerCase (tagName (doc e) []) \<in> set implicitElements then Inl TypeError
      else Inr (buildIncrementalPath_from e []))"
| "buildIncrementalPath e (i # p) =
     (if toLowerCase (tagName (doc e) (i # p)) \<in> set implicitElements
      then buildIncrementalPath e p
      else Inr (buildIncrementalPath_from e (i # p)))"

subsection \<open>Fallback: minimal semantic path\<close>

fun buildMinimalSemanticPath_loop :: "env \<Rightarrow> node \<Rightarrow> nat \<Rightarrow> string list \<Rightarrow> string list" where
  \<comment> \<open>the arguments are \<open>current\<close>, \<open>depth\<close> and \<open>segments\<close>; the result is the list
      of segments when the loop is left, by its condition, by a timeout or by \<open>break\<close>\<close>
  "buildMinimalSemanticPath_loop e [] depth segments = segments"
| "buildMinimalSemanticPath_loop e (i # p) depth segments =
     (if \<not> depth < maxDepth e then segments
      else if isTimeout e FallbackPath depth then segments
      else if toLowerCase (tagName (doc e) (i # p)) \<in> set implicitElements
      then buildMinimalSemanticPath_loop e p (Suc depth) segments
      else if element_id (doc e) (i # p) \<noteq> [] \<and> \<not> isStableId (element_id (doc e) (i # p))
      then buildMinimalSemanticPath_loop e p (Suc depth) segments
      else if toLowerCase (tagName (doc e) (i # p)) \<in> set semanticLandmarks
      then getMinimalSegment (doc e) (i # p) # segments
      else buildMinimalSemanticPath_loop e p (Suc depth)
             (getMinimalSegment (doc e) (i # p) # segments))"

definition buildMinimalSemanticPath :: "env \<Rightarrow> node \<Rightarrow> string" where
  "buildMinimalSemanticPath e element =
     from_segments (buildMinimalSemanticPath_loop e element 0 [])"

subsection \<open>Path simplifier\<close>

fun split_dslash :: "string \<Rightarrow> string list" where
  \<comment> \<open>\<open>xpath.split('//')\<close>: the separators are found from the left and do not overlap\<close>
  "split_dslash [] = [[]]"
| "split_dslash [c] = [[c]]"
| "split_dslash (c # c' # cs) =
     (if c = CHR ''/'' \<and> c' = CHR ''/'' then [] # split_dslash cs
      else (case split_dslash (c' # cs) of [] \<Rightarrow> [[c]] | part # parts \<Rightarrow> (c # part) # parts))"

definition segments_of :: "string \<Rightarrow> string list" where
  \<comment> \<open>\<open>xpath.split('//').filter(s => s)\<close>\<close>
  "segments_of xpath = filter (\<lambda>s. s \<noteq> []) (split_dslash xpath)"

definition hasPositionalIndex :: "string \<Rightarrow> bool" where
  \<comment> \<open>\<open>/\[\d+\]$/\<close>\<close>
  "hasPositionalIndex segment =
     (case rev segment of
        [] \<Rightarrow> False
      | c # r \<Rightarrow>
          c = CHR '']'' \<and> takeWhile is_digit r \<noteq> [] \<and>
          (case dropWhile is_digit r of [] \<Rightarrow> False | b # _ \<Rightarrow> b = CHR ''[''))"

fun findIndex :: "('a \<Rightarrow> bool) \<Rightarrow> 'a list \<Rightarrow> int" where
  \<comment> \<open>\<open>xs.findIndex(P)\<close>, \<open>-1\<close> when no element satisfies \<open>P\<close>\<close>
  "findIndex P [] = - 1"
| "findIndex P (x # xs) =
     (if P x then 0 else (let i = findIndex P xs in if i < 0 then - 1 else i + 1))"

definition findAnchorInPath :: "string list \<Rightarrow> int" where
  "findAnchorInPath segments =
     findIndex (\<lambda>segment. str_includes ''[@id='' segment \<or>
                           str_includes ''[@data-testid='' segment \<or>
                           str_includes ''[@data-test='' segment) segments"

definition without_index :: "string list \<Rightarrow> nat \<Rightarrow> string list" where
  \<comment> \<open>\<open>parts.filter((_, i) => i !== index)\<close>\<close>
  "without_index parts index =
     map (\<lambda>i. parts ! i) (filter (\<lambda>i. i \<noteq> index) [0 ..< length parts])"

definition first_then_after :: "string list \<Rightarrow> nat \<Rightarrow> string list" where
  \<comment> \<open>\<open>[parts[0], ...parts.slice(i + 1)]\<close>, for non-empty \<open>parts\<close>\<close>
  "first_then_after parts i = hd parts # drop (i + 1) parts"

definition simplifyCandidates :: "string list \<Rightarrow> string list list" where
  \<comment> \<open>the segment lists that the passes of \<open>simplifyPath\<close> try, in the order in which
      the loops of the source reach them; each line is one pass\<close>
  "simplifyCandidates parts =
     (let n = length parts;
          firstPositionalIndex = findIndex hasPositionalIndex parts;
          positionalSegments = filter (\<lambda>i. hasPositionalIndex (parts ! i)) [0 ..< n];
          nonPositionalSegments = filter (\<lambda>i. \<not> hasPositionalIndex (parts ! i)) [0 ..< n]
      in
      map (without_index parts)
        (filter (\<lambda>index. \<not> (index = 0 \<or> index = n - 1)) nonPositionalSegments) @
      (if 3 < n
       then map (first_then_after parts)
              (filter (\<lambda>i. \<not> hasPositionalIndex (parts ! i)) [1 ..< n - 1])
       else []) @
      map (without_index parts)
        (filter (\<lambda>index. \<not> int index = firstPositionalIndex \<and> \<not> (index = 0 \<or> index = n - 1))
           positionalSegments) @
      map (\<lambda>i. drop i parts)
        (filter (\<lambda>i. \<not> (0 \<le> firstPositionalIndex \<and> int i \<le> firstPositionalIndex)) [1 ..< n - 1]) @
      (if 3 < n
       then map (first_then_after parts)
              (filter (\<lambda>i. \<not> (0 \<le> firstPositionalIndex \<and> int i = firstPositionalIndex))
                 [1 ..< n - 1])
       else []) @
      (if 3 < n \<and> 0 \<le> findAnchorInPath parts \<and> findAnchorInPath parts < int n - 2
       then [parts ! nat (findAnchorInPath parts) # drop (n - 2) parts]
       else []))"

definition simplifyPath :: "env \<Rightarrow> string \<Rightarrow> node \<Rightarrow> string" where
  \<comment> \<open>every candidate of every pass is tested with
      \<open>isUniqueSelector(simplified) && validateSelector(simplified, targetElement)\<close> and the
      first that passes is returned\<close>
  "simplifyPath e xpath targetElement =
     (if xpath = [] \<or> length xpath < 10 then xpath
      else if length (segments_of xpath) \<le> 2 then xpath
      else
        (case List.find (\<lambda>simplified. unique_and_valid e simplified targetElement)
                (map from_segments (simplifyCandidates (segments_of xpath))) of
           Some simplified \<Rightarrow> simplified
         | None \<Rightarrow> xpath))"

subsection \<open>The entry point\<close>

definition checked :: "env \<Rightarrow> node \<Rightarrow> string option \<Rightarrow> string option" where
  \<comment> \<open>the condition \<open>path && this.validateSelector(path, element)\<close> on a
      \<open>string | null\<close>: the path when it is neither \<open>null\<close> nor empty and its first
      match is the element\<close>
  "checked e element path =
     (case path of
        None \<Rightarrow> None
      | Some xpath \<Rightarrow> if xpath \<noteq> [] \<and> validateSelector e xpath element then Some xpath else None)"

definition generate_by :: "env \<Rightarrow> node \<Rightarrow> error + strategy \<times> string" where
  \<comment> \<open>\<open>generate\<close>, with the name of the strategy whose \<open>return\<close> statement was taken\<close>
  "generate_by e element =
     (if \<not> isHTMLElement (doc e) element then Inl InvalidElement
      else
        (case checked e element (tryStableAnchorPath e element) of
           Some stableAnchorPath \<Rightarrow> Inr (StableAnchor, stableAnchorPath)
         | None \<Rightarrow>
        (case checked e element (tryStableAttributePath e element) of
           Some attrPath \<Rightarrow> Inr (StableAttribute, attrPath)
         | None \<Rightarrow>
        (case checked e element (tryStructuralPath e element) of
           Some structuralPath \<Rightarrow> Inr (Structural, structuralPath)
         | None \<Rightarrow>
        (case checked e element (trySiblingRelationshipPath e element) of
           Some siblingPath \<Rightarrow> Inr (Sibling, siblingPath)
         | None \<Rightarrow>
        (case buildIncrementalPath e element of
           Inl err \<Rightarrow> Inl err
         | Inr path \<Rightarrow>
             (case checked e element path of
                Some incrementalPath \<Rightarrow>
                  Inr (IncrementalBuildUp, simplifyPath e incrementalPath element)
              | None \<Rightarrow>
                  Inr (FallbackPath,
                       simplifyPath e (buildMinimalSemanticPath e element) element))))))))"

definition generate :: "env \<Rightarrow> node \<Rightarrow> error + string" where
  "generate e element = map_sum id snd (generate_by e element)"

section \<open>The classifier's shapes, read from the specification\<close>

text \<open>
  The specification names the shapes of generated ids and class tokens in words. Here
  each shape is written down as the words say it, by the position at which a token
  splits, independently of the way the regular expressions above are run.
\<close>

definition word_dash_digits_at :: "nat \<Rightarrow> string \<Rightarrow> nat \<Rightarrow> bool" where
  \<comment> \<open>a word of letters, a hyphen at position \<open>i\<close>, then at least \<open>n\<close> digits and nothing else\<close>
  "word_dash_digits_at n s i =
     (0 < i \<and> s ! i = CHR ''-'' \<and> list_all is_alpha (take i s) \<and>
      n \<le> length (drop (Suc i) s) \<and> drop (Suc i) s \<noteq> [] \<and> list_all is_digit (drop (Suc i) s))"

definition word_then_digits :: "nat \<Rightarrow> string \<Rightarrow> bool" where
  "word_then_digits n s = list_ex (word_dash_digits_at n s) [0 ..< length s]"

definition generated_id_shape :: "string \<Rightarrow> bool" where
  \<comment> \<open>numeric sequences of eight digits, \<open>ember<digits>\<close>, \<open>react-<word>-<digits>\<close> and
      the same for \<open>ng-\<close> and \<open>vue-\<close>, \<open>jsx-<digits>\<close>, \<open><word>-<3+digits>\<close>, runs of
      eight or more hexadecimal digits, and the prefixes \<open>uid-\<close>, \<open>gen-\<close>, \<open>auto-\<close>;
      letters in either case\<close>
  "generated_id_shape s =
     ((length s = 8 \<and> list_all is_digit s) \<or>
      (starts_with_ci ''ember'' s \<and> all_digits (drop 5 s)) \<or>
      list_ex (\<lambda>framework. starts_with_ci framework s \<and>
                            word_then_digits 1 (drop (length framework) s))
        [''react-'', ''ng-'', ''vue-''] \<or>
      (starts_with_ci ''jsx-'' s \<and> all_digits (drop 4 s)) \<or>
      word_then_digits 3 s \<or>
      (8 \<le> length s \<and> list_all is_hex s) \<or>
      list_ex (\<lambda>p. starts_with_ci p s) [''uid-'', ''gen-'', ''auto-''])"

definition underscore_run_at :: "string \<Rightarrow> nat \<Rightarrow> bool" where
  \<comment> \<open>an underscore at position \<open>i\<close>, then five or more alphanumerics up to the end\<close>
  "underscore_run_at s i =
     (s ! i = CHR ''_'' \<and> 5 \<le> length (drop (Suc i) s) \<and> list_all is_alnum (drop (Suc i) s))"

definition letters_digits_at :: "string \<Rightarrow> nat \<Rightarrow> bool" where
  \<comment> \<open>\<open>k\<close> letters, then digits, at least one, up to the end\<close>
  "letters_digits_at s k =
     (k < length s \<and> list_all is_alpha (take k s) \<and> list_all is_digit (drop k s))"

definition generated_class_shape :: "string \<Rightarrow> bool" where
  \<comment> \<open>a prefix \<open>css-\<close>, \<open>jsx-\<close>, \<open>sc-\<close> or \<open>makeStyles-\<close>, \<open>jss\<close> followed by digits, a
      trailing underscore followed by five or more alphanumerics, one or two letters
      followed by digits, or a leading digit\<close>
  "generated_class_shape t =
     (list_ex (\<lambda>p. starts_with p t) [''css-'', ''jsx-'', ''sc-'', ''makeStyles-''] \<or>
      (starts_with ''jss'' t \<and> 3 < length t \<and> is_digit (t ! 3)) \<or>
      list_ex (underscore_run_at t) [0 ..< length t] \<or>
      list_ex (letters_digits_at t) [1, 2] \<or>
      (t \<noteq> [] \<and> is_digit (hd t)))"

definition vowel_ratio :: "string \<Rightarrow> real" where
  \<comment> \<open>the count of \<open>[aeiou]\<close> divided by the length\<close>
  "vowel_ratio t = real (vowelCount t) / real (length t)"

section \<open>Ancestors\<close>

fun ancestors_of :: "node \<Rightarrow> node list" where
  \<comment> \<open>the chain of \<open>parentElement\<close> above a node, nearest first, up to the root\<close>
  "ancestors_of [] = []"
| "ancestors_of (i # p) = p # ancestors_of p"

section \<open>Well-formed segment lists\<close>

fun no_dslash :: "string \<Rightarrow> bool" where
  \<comment> \<open>the string has no occurrence of \<open>//\<close>\<close>
  "no_dslash (c # c' # cs) = (\<not> (c = CHR ''/'' \<and> c' = CHR ''/'') \<and> no_dslash (c' # cs))"
| "no_dslash _ = True"

definition proper_segments :: "string list \<Rightarrow> bool" where
  \<comment> \<open>what \<open>split('//')\<close> and the filter leave: non-empty pieces without \<open>//\<close>, none
      but the last ending in a slash\<close>
  "proper_segments parts =
     ((\<forall>p \<in> set parts. p \<noteq> [] \<and> no_dslash p) \<and>
      (\<forall>p \<in> set (butlast parts). last p \<noteq> CHR ''/''))"

definition shortened :: "string list \<Rightarrow> string list \<Rightarrow> bool" where
  \<comment> \<open>\<open>c\<close> is made of segments of \<open>parts\<close>, has fewer of them, and what it has before
      its last segment stood before the last segment of \<open>parts\<close>\<close>
  "shortened parts c =
     (set c \<subseteq> set parts \<and> set (butlast c) \<subseteq> set (butlast parts) \<and> length c < length parts)"

section \<open>Throwing and rejecting evaluators\<close>

definition rejecting_throws :: "env \<Rightarrow> env" where
  \<comment> \<open>the same host with an evaluator that never throws: where the host's evaluator
      throws, this one answers that nothing matches\<close>
  "rejecting_throws e =
     e\<lparr>evaluate := \<lambda>xpath. case evaluate e xpath of Inl err \<Rightarrow> Inr [] | Inr r \<Rightarrow> Inr r\<rparr>"


section \<open>Documents used in the examples\<close>

text \<open>
  Each example is a document together with the answers of the query evaluator on it. The
  documents have no text between their tags other than the text shown. The answers are
  tabulated for the expressions that the run consults, with the nodes in document order
  as XPath 1.0 gives them; an expression outside the table is answered with a failure.
  The runs do not depend on that choice: \<open>accepting_otherwise\<close> answers every
  expression outside the table with the target alone, and the results are the same. The
  clock never exceeds the budget.
\<close>

definition table_evaluator :: "(string \<times> node list) list \<Rightarrow> string \<Rightarrow> error + node list" where
  "table_evaluator table xpath =
     (case map_of table xpath of Some result \<Rightarrow> Inr result | None \<Rightarrow> Inl EvaluationError)"

definition host :: "dom \<Rightarrow> (string \<times> node list) list \<Rightarrow> env" where
  "host d table =
     \<lparr>doc = d, evaluate = table_evaluator table, maxDepth = 10, timeout = 20000,
      startTime = 0, now = (\<lambda>s depth. 0)\<rparr>"

definition accepting_otherwise :: "env \<Rightarrow> node \<Rightarrow> env" where
  "accepting_otherwise e target =
     e\<lparr>evaluate := \<lambda>xpath. case evaluate e xpath of Inl err \<Rightarrow> Inr [target] | Inr r \<Rightarrow> Inr r\<rparr>"

definition no_landmark :: "string \<Rightarrow> (string \<times> node list) list" where
  \<comment> \<open>a document without landmark elements: \<open>//landmark//tag\<close> matches nothing\<close>
  "no_landmark tag = map (\<lambda>landmark. (''//'' @ landmark @ ''//'' @ tag, [])) semanticLandmarks"

text \<open>
  \<open><html><head></head><body><p>T</p><div><p>O</p></div></body></html>\<close>:
  the first paragraph is \<open>[0, 1]\<close>, the second is \<open>[0, 1, 1]\<close>.
\<close>

definition two_paragraphs :: dom where
  "two_paragraphs =
     Element HtmlElement ''HTML'' []
       [Element HtmlElement ''HEAD'' [] [],
        Element HtmlElement ''BODY'' []
          [Element HtmlElement ''P'' [] [Text ''T''],
           Element HtmlElement ''DIV'' [] [Element HtmlElement ''P'' [] [Text ''O'']]]]"

definition two_paragraphs_host :: env where
  "two_paragraphs_host =
     host two_paragraphs
       ([(''//p'', [[0, 1], [0, 1, 1]]),
         (''//body//p'', [[0, 1], [0, 1, 1]])] @ no_landmark ''p'')"

text \<open>
  \<open><html><head></head><body><ul id="list1234XX"><li>A</li><li>B</li>
  <li data-testid="item-target">C</li></ul></body></html>\<close>:
  the list is \<open>[0, 1]\<close> and its items are \<open>[0, 0, 1]\<close>, \<open>[1, 0, 1]\<close>, \<open>[2, 0, 1]\<close>.
\<close>

definition item_list :: dom where
  \<open>item_list =
     Element HtmlElement ''HTML'' []
       [Element HtmlElement ''HEAD'' [] [],
        Element HtmlElement ''BODY'' []
          [Element HtmlElement ''UL'' [(''id'', ''list1234XX'')]
             [Element HtmlElement ''LI'' [] [Text ''A''],
              Element HtmlElement ''LI'' [] [Text ''B''],
              Element HtmlElement ''LI'' [(''data-testid'', ''item-target'')] [Text ''C'']]]]\<close>

definition item_list_table :: "(string \<times> node list) list" where
  \<open>item_list_table =
     [(''//li'', [[0, 0, 1], [1, 0, 1], [2, 0, 1]]),
      (''//ul[@id="list1234XX"]//li'', [[0, 0, 1], [1, 0, 1], [2, 0, 1]]),
      (''(//ul[@id="list1234XX"]//li)[3]'', [[2, 0, 1]]),
      (''//li[@data-testid="item-target"]'', [[2, 0, 1]])] @ no_landmark ''li''\<close>

definition item_list_host :: env where
  "item_list_host = host item_list item_list_table"



text \<open>
  \<open><html><head></head><body><dl><dt>Price</dt><dd>$42</dd></dl></body></html>\<close>:
  the \<open>dd\<close> is \<open>[1, 0, 1]\<close>.
\<close>

definition price_list :: dom where
  "price_list =
     Element HtmlElement ''HTML'' []
       [Element HtmlElement ''HEAD'' [] [],
        Element HtmlElement ''BODY'' []
          [Element HtmlElement ''DL'' []
             [Element HtmlElement ''DT'' [] [Text ''Price''], Element HtmlElement ''DD'' [] [Text ''$42'']]]]"

definition price_list_host :: env where
  \<open>price_list_host =
     host price_list
       [(''//dd'', [[1, 0, 1]]),
        (''//dt[contains(text(), "Price")]/following-sibling::dd[1]'', [[1, 0, 1]])]\<close>

text \<open>
  \<open><html><head></head><body><dl><dt>Price</dt><dd>$42</dd></dl>
  <dl><dt>Stock</dt><dd>7</dd></dl></body></html>\<close>:
  the two \<open>dd\<close> are \<open>[1, 0, 1]\<close> and \<open>[1, 1, 1]\<close>.
\<close>

definition two_price_lists :: dom where
  "two_price_lists =
     Element HtmlElement ''HTML'' []
       [Element HtmlElement ''HEAD'' [] [],
        Element HtmlElement ''BODY'' []
          [Element HtmlElement ''DL'' []
             [Element HtmlElement ''DT'' [] [Text ''Price''], Element HtmlElement ''DD'' [] [Text ''$42'']],
           Element HtmlElement ''DL'' []
             [Element HtmlElement ''DT'' [] [Text ''Stock''], Element HtmlElement ''DD'' [] [Text ''7'']]]]"

definition two_price_lists_host :: env where
  \<open>two_price_lists_host =
     host two_price_lists
       ([(''//dd'', [[1, 0, 1], [1, 1, 1]]),
         (''//dt[contains(text(), "Price")]/following-sibling::dd[1]'', [[1, 0, 1]])] @
        no_landmark ''dd'')\<close>

text \<open>
  \<open><html><head></head><body>
  <div><div></div><div><div><p>O</p></div></div></div>
  <div><div role="x"><p>T</p></div></div></body></html>\<close>:
  the paragraph \<open>O\<close> is \<open>[0, 0, 1, 0, 1]\<close> and the paragraph \<open>T\<close> is \<open>[0, 0, 1, 1]\<close>.
\<close>

definition nested_blocks :: dom where
  "nested_blocks =
     Element HtmlElement ''HTML'' []
       [Element HtmlElement ''HEAD'' [] [],
        Element HtmlElement ''BODY'' []
          [Element HtmlElement ''DIV'' []
             [Element HtmlElement ''DIV'' [] [],
              Element HtmlElement ''DIV'' [] [Element HtmlElement ''DIV'' [] [Element HtmlElement ''P'' [] [Text ''O'']]]],
           Element HtmlElement ''DIV'' []
             [Element HtmlElement ''DIV'' [(''role'', ''x'')] [Element HtmlElement ''P'' [] [Text ''T'']]]]]"

definition nested_blocks_table :: "(string \<times> node list) list" where
  \<open>nested_blocks_table =
     [(''//p'', [[0, 0, 1, 0, 1], [0, 0, 1, 1]]),
      (''//div//p'', [[0, 0, 1, 0, 1], [0, 0, 1, 1]]),
      (''//div[2]//p'', [[0, 0, 1, 0, 1], [0, 0, 1, 1]]),
      (''//div[2]//div//p'', [[0, 0, 1, 0, 1], [0, 0, 1, 1]]),
      (''//body//p'', [[0, 0, 1, 0, 1], [0, 0, 1, 1]]),
      (''//body//div[2]//div//p'', [[0, 0, 1, 0, 1], [0, 0, 1, 1]]),
      (''//body//div[2]//div[@role="x"]//p'', [[0, 0, 1, 1]]),
      (''//body//div[2]//p'', [[0, 0, 1, 0, 1], [0, 0, 1, 1]]),
      (''//div[@role="x"]//p'', [[0, 0, 1, 1]])] @ no_landmark ''p''\<close>

definition nested_blocks_host :: env where
  "nested_blocks_host = host nested_blocks nested_blocks_table"

text \<open>
  \<open><html><head></head><body><ul><li>A</li><li name='x" or @name!="x'>B</li></ul>
  </body></html>\<close>: the second item is \<open>[1, 0, 1]\<close>, the only item with a
  \<open>name\<close> attribute.
\<close>

definition quoted_name :: string where
  \<open>quoted_name = ''x" or @name!="x''\<close>

definition quoted_items :: dom where
  "quoted_items =
     Element HtmlElement ''HTML'' []
       [Element HtmlElement ''HEAD'' [] [],
        Element HtmlElement ''BODY'' []
          [Element HtmlElement ''UL'' []
             [Element HtmlElement ''LI'' [] [Text ''A''],
              Element HtmlElement ''LI'' [(''name'', quoted_name)] [Text ''B'']]]]"

definition quoted_items_host :: env where
  \<open>quoted_items_host =
     host quoted_items
       ([(''//li'', [[0, 0, 1], [1, 0, 1]]),
         (''//li[@name="x" or @name!="x"]'', [[1, 0, 1]])] @ no_landmark ''li'')\<close>

text \<open>
  \<open><html><head></head><body><div id="react-abc-123">T</div></body></html>\<close>:
  the \<open>div\<close> is \<open>[0, 1]\<close>.
\<close>

definition generated_block :: dom where
  "generated_block =
     Element HtmlElement ''HTML'' []
       [Element HtmlElement ''HEAD'' [] [],
        Element HtmlElement ''BODY'' [] [Element HtmlElement ''DIV'' [(''id'', ''react-abc-123'')] [Text ''T'']]]"

definition generated_block_host :: env where
  "generated_block_host = host generated_block []"

section \<open>Properties of the stability classifier\<close>

declare string_of_nat.simps [simp del]

lemma dash_not_alpha: "\<not> is_alpha CHR ''-''"
  by (simp add: is_alpha_def is_lower_def is_upper_def)

lemma underscore_not_alnum: "\<not> is_alnum CHR ''_''"
  by (simp add: is_alnum_def is_alpha_def is_lower_def is_upper_def is_digit_def)

lemma digit_not_alpha: "is_digit c \<Longrightarrow> \<not> is_alpha c"
  by (auto simp: is_alpha_def is_lower_def is_upper_def is_digit_def)

lemma digit_is_hex: "is_digit c \<Longrightarrow> is_hex c"
  by (auto simp: is_hex_def is_digit_def)

lemma lower_char_digit: "is_digit c \<Longrightarrow> lower_char c = c"
  unfolding is_digit_def
  by (elim FalseE | erule set_ConsD [THEN disjE] | simp add: lower_char_def)+

lemma takeWhile_split:
  "list_all P xs \<Longrightarrow> \<not> P y \<Longrightarrow> takeWhile P (xs @ y # ys) = xs"
  by (induction xs) auto

lemma dropWhile_split:
  "list_all P xs \<Longrightarrow> \<not> P y \<Longrightarrow> dropWhile P (xs @ y # ys) = y # ys"
  by (induction xs) auto

lemma list_all_takeWhile: "list_all P (takeWhile P xs)"
  by (induction xs) auto

lemma list_ex_upt: "list_ex P [0 ..< n] \<longleftrightarrow> (\<exists>i < n. P i)"
  by (auto simp: list_ex_iff)

lemma word_dash_digits_iff:
  "word_dash_digits n s \<longleftrightarrow> (\<exists>i < length s. word_dash_digits_at n s i)"
proof
  assume h: "word_dash_digits n s"
  define w where "w = takeWhile is_alpha s"
  from h obtain ds where d: "dropWhile is_alpha s = CHR ''-'' # ds"
    and w: "w \<noteq> []" and ds: "n \<le> length ds" "ds \<noteq> []" "list_all is_digit ds"
    by (auto simp: word_dash_digits_def w_def split: list.splits)
  have s: "s = w @ CHR ''-'' # ds"
    using takeWhile_dropWhile_id [of is_alpha s] d by (simp add: w_def)
  have wa: "list_all is_alpha w" by (simp add: w_def list_all_takeWhile)
  have "word_dash_digits_at n (w @ CHR ''-'' # ds) (length w)"
    unfolding word_dash_digits_at_def using w ds wa by simp
  then have "word_dash_digits_at n s (length w)" using s by simp
  moreover have "length w < length s" by (simp add: s)
  ultimately show "\<exists>i < length s. word_dash_digits_at n s i" by blast
next
  assume "\<exists>i < length s. word_dash_digits_at n s i"
  then obtain i where i: "i < length s" and a: "word_dash_digits_at n s i" by blast
  have s: "s = take i s @ CHR ''-'' # drop (Suc i) s"
    using id_take_nth_drop [OF i] a by (simp add: word_dash_digits_at_def)
  have al: "list_all is_alpha (take i s)" using a by (simp add: word_dash_digits_at_def)
  have t: "takeWhile is_alpha s = take i s"
    using takeWhile_split [OF al dash_not_alpha, of "drop (Suc i) s"] s by simp
  have d: "dropWhile is_alpha s = CHR ''-'' # drop (Suc i) s"
    using dropWhile_split [OF al dash_not_alpha, of "drop (Suc i) s"] s by simp
  show "word_dash_digits n s"
    unfolding word_dash_digits_def t d using a i
    by (auto simp: word_dash_digits_at_def)
qed

lemma word_dash_digits_spec: "word_dash_digits n s = word_then_digits n s"
  by (simp add: word_dash_digits_iff word_then_digits_def list_ex_upt)

lemma trailing_underscore_run_iff:
  "trailing_underscore_run s \<longleftrightarrow> (\<exists>i < length s. underscore_run_at s i)"
proof
  assume h: "trailing_underscore_run s"
  define run where "run = takeWhile is_alnum (rev s)"
  from h obtain rest where d: "dropWhile is_alnum (rev s) = CHR ''_'' # rest"
    and r: "5 \<le> length run"
    by (auto simp: trailing_underscore_run_def run_def split: list.splits)
  have "rev s = run @ CHR ''_'' # rest"
    using takeWhile_dropWhile_id [of is_alnum "rev s"] d by (simp add: run_def)
  then have "rev (rev s) = rev (run @ CHR ''_'' # rest)" by simp
  then obtain p where s: "s = p @ CHR ''_'' # rev run" by simp
  have ra: "list_all is_alnum run" by (simp add: run_def list_all_takeWhile)
  have "underscore_run_at (p @ CHR ''_'' # rev run) (length p)"
    unfolding underscore_run_at_def using r ra by (simp add: list_all_iff)
  then have "underscore_run_at s (length p)" using s by simp
  moreover have "length p < length s" by (simp add: s)
  ultimately show "\<exists>i < length s. underscore_run_at s i" by blast
next
  assume "\<exists>i < length s. underscore_run_at s i"
  then obtain i where i: "i < length s" and a: "underscore_run_at s i" by blast
  define a' where "a' = drop (Suc i) s"
  define p where "p = take i s"
  have s: "s = p @ CHR ''_'' # a'"
    using id_take_nth_drop [OF i] a by (simp add: underscore_run_at_def a'_def p_def)
  have al: "list_all is_alnum (rev a')" "5 \<le> length a'"
    using a by (simp_all add: underscore_run_at_def a'_def list_all_iff)
  have r: "rev s = rev a' @ CHR ''_'' # rev p" by (simp add: s)
  show "trailing_underscore_run s"
    unfolding trailing_underscore_run_def r
    using takeWhile_split [OF al(1) underscore_not_alnum]
          dropWhile_split [OF al(1) underscore_not_alnum] al(2)
    by simp
qed

lemma letters_then_digits_iff:
  "letters_then_digits s \<longleftrightarrow> letters_digits_at s 1 \<or> letters_digits_at s 2"
proof
  assume h: "letters_then_digits s"
  define w where "w = takeWhile is_alpha s"
  define ds where "ds = dropWhile is_alpha s"
  have s: "s = w @ ds" by (simp add: w_def ds_def)
  have wa: "list_all is_alpha w" by (simp add: w_def list_all_takeWhile)
  from h have k: "length w = 1 \<or> length w = 2" and d: "ds \<noteq> []" "list_all is_digit ds"
    by (auto simp: letters_then_digits_def all_digits_def w_def ds_def)
  have "letters_digits_at (w @ ds) (length w)"
    unfolding letters_digits_at_def using wa d by simp
  then have "letters_digits_at s (length w)" using s by simp
  with k show "letters_digits_at s 1 \<or> letters_digits_at s 2" by auto
next
  assume "letters_digits_at s 1 \<or> letters_digits_at s 2"
  then obtain k where k: "k = 1 \<or> k = 2" and a: "letters_digits_at s k" by blast
  define w where "w = take k s"
  define ds where "ds = drop k s"
  from a have kl: "k < length s" and wa: "list_all is_alpha w" and da: "list_all is_digit ds"
    by (simp_all add: letters_digits_at_def w_def ds_def)
  from kl obtain y ys where ds: "ds = y # ys"
    by (cases ds) (auto simp: ds_def)
  have "s = w @ ds" by (simp add: w_def ds_def)
  then have s: "s = w @ y # ys" using ds by simp
  have ny: "\<not> is_alpha y" using da ds digit_not_alpha by simp
  have lw: "length w = k" using kl by (simp add: w_def)
  show "letters_then_digits s"
    unfolding letters_then_digits_def s
    using takeWhile_split [OF wa ny, of ys] dropWhile_split [OF wa ny, of ys] k lw da ds
    by (auto simp: all_digits_def)
qed

lemma dynamic_id_shape: "list_ex (\<lambda>pattern. pattern s) dynamicIdPatterns = generated_id_shape s"
  unfolding dynamicIdPatterns_def generated_id_shape_def
  by (simp add: word_dash_digits_spec eval_nat_numeral)

lemma unstable_class_shape:
  "list_ex (\<lambda>pattern. pattern t) unstablePatterns = generated_class_shape t"
proof -
  have jss: "(starts_with ''jss'' t \<and> (case drop 3 t of [] \<Rightarrow> False | c # _ \<Rightarrow> is_digit c)) =
             (starts_with ''jss'' t \<and> 3 < length t \<and> is_digit (t ! 3))"
  proof (cases "3 < length t")
    case True
    then have "drop 3 t = t ! 3 # drop 4 t" using Cons_nth_drop_Suc [of 3 t] by simp
    with True show ?thesis by simp
  next
    case False
    then show ?thesis by simp
  qed
  have lead: "(case t of [] \<Rightarrow> False | c # _ \<Rightarrow> is_digit c) = (t \<noteq> [] \<and> is_digit (hd t))"
    by (cases t) auto
  show ?thesis
    unfolding unstablePatterns_def generated_class_shape_def
    by (simp add: jss lead trailing_underscore_run_iff letters_then_digits_iff list_ex_upt)
qed

lemma starts_with_ci_digit:
  "is_digit c \<Longrightarrow> \<not> is_digit x \<Longrightarrow> \<not> starts_with_ci (x # xs) (c # cs)"
  by (auto simp: starts_with_ci_def toLowerCase_def lower_char_digit)

lemma word_dash_digits_digit: "is_digit c \<Longrightarrow> \<not> word_dash_digits n (c # cs)"
  by (simp add: word_dash_digits_def digit_not_alpha)

lemma numeric_id_shape:
  assumes "all_digits s"
  shows "generated_id_shape s \<longleftrightarrow> 8 \<le> length s"
proof -
  from assms obtain c cs where s: "s = c # cs" and c: "is_digit c" and cs: "list_all is_digit cs"
    by (cases s) (auto simp: all_digits_def)
  have hex: "list_all is_hex s"
    using c cs digit_is_hex by (auto simp: s list_all_iff)
  have letters: "\<not> starts_with_ci ''ember'' s" "\<not> starts_with_ci ''react-'' s"
    "\<not> starts_with_ci ''ng-'' s" "\<not> starts_with_ci ''vue-'' s" "\<not> starts_with_ci ''jsx-'' s"
    "\<not> starts_with_ci ''uid-'' s" "\<not> starts_with_ci ''gen-'' s" "\<not> starts_with_ci ''auto-'' s"
    unfolding s by (rule starts_with_ci_digit [OF c], simp add: is_digit_def)+
  have word: "\<not> word_then_digits 3 s"
    using word_dash_digits_digit [OF c, of 3 cs] by (simp add: s word_dash_digits_spec)
  show ?thesis
    unfolding generated_id_shape_def using hex letters word by auto
qed

text \<open>
  C5, as the code has it. \<open>isStableId\<close> rejects the empty id and exactly the ids of a
  generated shape, where the numeric shape is a sequence of eight digits; every other id
  is stable. A purely numeric id is rejected when it has eight digits or more (from eight
  digits on it is also a hexadecimal run) and is stable when it has at most seven.
\<close>

theorem isStableId_shapes:
  "(isStableId s \<longleftrightarrow> s \<noteq> [] \<and> \<not> generated_id_shape s) \<and>
   (all_digits s \<longrightarrow> (isStableId s \<longleftrightarrow> length s < 8))"
proof -
  have a: "isStableId s \<longleftrightarrow> s \<noteq> [] \<and> \<not> generated_id_shape s"
    by (simp add: isStableId_def dynamic_id_shape)
  have "isStableId s \<longleftrightarrow> length s < 8" if d: "all_digits s"
  proof -
    from d have "s \<noteq> []" by (simp add: all_digits_def)
    with a numeric_id_shape [OF d] show ?thesis by auto
  qed
  with a show ?thesis by blast
qed

theorem isStableId_shapes_witness:
  "all_digits ''1234567'' \<and> isStableId ''1234567'' \<and>
   all_digits ''12345678'' \<and> \<not> isStableId ''12345678'' \<and>
   \<not> generated_id_shape ''main-nav'' \<and> isStableId ''main-nav''"
proof -
  have d7: "all_digits ''1234567''" and d8: "all_digits ''12345678''"
    and n: "\<not> generated_id_shape ''main-nav''"
    by code_simp+
  have l7: "length ''1234567'' < 8" and l8: "\<not> length ''12345678'' < 8"
    and ne: "''main-nav'' \<noteq> []"
    by simp_all
  have "isStableId ''1234567''"
    using isStableId_shapes [of "''1234567''"] d7 l7 by blast
  moreover have "\<not> isStableId ''12345678''"
    using isStableId_shapes [of "''12345678''"] d8 l8 by blast
  moreover have "isStableId ''main-nav''"
    using isStableId_shapes [of "''main-nav''"] n ne by blast
  ultimately show ?thesis using d7 d8 n by simp
qed

text \<open>
  C5, as stated, fails: the claim has every purely numeric id rejected, and the id
  \<open>123\<close> is purely numeric and stable.
\<close>

theorem isStableId_numeric_counterexample:
  "all_digits ''123'' \<and> isStableId ''123''"
  by code_simp

text \<open>
  C8. \<open>isStableClass\<close> rejects every token of a generated shape; a purely alphabetic
  token of six or more letters that has none of those shapes is stable exactly when its
  vowel ratio is at least \<open>0.3\<close>; every other non-empty token is stable.
\<close>

theorem isStableClass_classification:
  "(generated_class_shape t \<longrightarrow> \<not> isStableClass t) \<and>
   (\<not> generated_class_shape t \<and> 6 \<le> length t \<and> list_all is_alpha t \<longrightarrow>
      (isStableClass t \<longleftrightarrow> 3 / 10 \<le> vowel_ratio t)) \<and>
   (t \<noteq> [] \<and> \<not> generated_class_shape t \<and> \<not> (6 \<le> length t \<and> list_all is_alpha t) \<longrightarrow>
      isStableClass t)"
proof -
  have ratio: "(3 / 10 \<le> vowel_ratio t) = (3 * length t \<le> 10 * vowelCount t)" if "t \<noteq> []"
  proof -
    from that have pos: "0 < real (length t)" by simp
    have "(3 / 10 \<le> vowel_ratio t) = (3 * real (length t) \<le> 10 * real (vowelCount t))"
      unfolding vowel_ratio_def using pos by (simp add: field_simps)
    also have "\<dots> = (real (3 * length t) \<le> real (10 * vowelCount t))" by simp
    also have "\<dots> = (3 * length t \<le> 10 * vowelCount t)" by (rule of_nat_le_iff)
    finally show ?thesis .
  qed
  have rejected: "\<not> isStableClass t" if "generated_class_shape t"
    using that by (simp add: isStableClass_def unstable_class_shape)
  have word: "isStableClass t \<longleftrightarrow> 3 / 10 \<le> vowel_ratio t"
    if "\<not> generated_class_shape t" "6 \<le> length t" "list_all is_alpha t"
  proof -
    from that(2) have ne: "t \<noteq> []" by auto
    have "isStableClass t \<longleftrightarrow> 3 * length t \<le> 10 * vowelCount t"
      using that ne by (simp add: isStableClass_def unstable_class_shape)
    then show ?thesis unfolding ratio [OF ne] .
  qed
  have other: "isStableClass t"
    if "t \<noteq> []" "\<not> generated_class_shape t" "\<not> (6 \<le> length t \<and> list_all is_alpha t)"
    using that by (auto simp: isStableClass_def unstable_class_shape)
  from rejected word other show ?thesis by blast
qed

theorem isStableClass_classification_witness:
  "generated_class_shape ''css-1x2y3z'' \<and> \<not> isStableClass ''css-1x2y3z'' \<and>
   \<not> generated_class_shape ''button'' \<and> 3 / 10 \<le> vowel_ratio ''button'' \<and>
     isStableClass ''button'' \<and>
   \<not> generated_class_shape ''xkcdqz'' \<and> \<not> 3 / 10 \<le> vowel_ratio ''xkcdqz'' \<and>
     \<not> isStableClass ''xkcdqz'' \<and>
   \<not> generated_class_shape ''nav-item'' \<and> isStableClass ''nav-item''"
proof -
  have g: "generated_class_shape ''css-1x2y3z''"
    and b: "\<not> generated_class_shape ''button''" "6 \<le> length ''button''"
           "list_all is_alpha ''button''"
    and x: "\<not> generated_class_shape ''xkcdqz''" "6 \<le> length ''xkcdqz''"
           "list_all is_alpha ''xkcdqz''"
    and n: "\<not> generated_class_shape ''nav-item''" "\<not> list_all is_alpha ''nav-item''"
    by code_simp+
  have vb: "3 / 10 \<le> vowel_ratio ''button''" and vx: "\<not> 3 / 10 \<le> vowel_ratio ''xkcdqz''"
    by (simp_all add: vowel_ratio_def vowelCount_def is_vowel_def)
  have "\<not> isStableClass ''css-1x2y3z''"
    using isStableClass_classification [of "''css-1x2y3z''"] g by blast
  moreover have "isStableClass ''button''"
    using isStableClass_classification [of "''button''"] b vb by blast
  moreover have "\<not> isStableClass ''xkcdqz''"
    using isStableClass_classification [of "''xkcdqz''"] x vx by blast
  moreover have "isStableClass ''nav-item''"
    using isStableClass_classification [of "''nav-item''"] n by blast
  ultimately show ?thesis using g b x n vb vx by simp
qed

section \<open>Properties of the strategy chain\<close>

lemma tables_cover_the_runs:
  "generate_by (accepting_otherwise two_paragraphs_host [0, 1]) [0, 1] =
     generate_by two_paragraphs_host [0, 1]"
  "generate_by (accepting_otherwise item_list_host [2, 0, 1]) [2, 0, 1] =
     generate_by item_list_host [2, 0, 1]"
  "generate_by (accepting_otherwise price_list_host [1, 0, 1]) [1, 0, 1] =
     generate_by price_list_host [1, 0, 1]"
  "generate_by (accepting_otherwise two_price_lists_host [1, 0, 1]) [1, 0, 1] =
     generate_by two_price_lists_host [1, 0, 1]"
  "generate_by (accepting_otherwise nested_blocks_host [0, 0, 1, 1]) [0, 0, 1, 1] =
     generate_by nested_blocks_host [0, 0, 1, 1]"
  "generate_by (accepting_otherwise quoted_items_host [1, 0, 1]) [1, 0, 1] =
     generate_by quoted_items_host [1, 0, 1]"
  by code_simp+

lemma unique_and_valid_iff: "unique_and_valid e x t \<longleftrightarrow> evaluate e x = Inr [t]"
  by (auto simp: unique_and_valid_def isUniqueSelector_def validateSelector_def length_Suc_conv
           split: sum.splits list.splits)

lemma validateSelector_iff:
  "validateSelector e x t \<longleftrightarrow> (\<exists>rest. evaluate e x = Inr (t # rest))"
  by (auto simp: validateSelector_def split: sum.splits list.splits)

lemma find_SomeD: "List.find P xs = Some y \<Longrightarrow> P y"
  by (auto simp: find_Some_iff)

lemma tryStableAnchorPath_sound:
  "tryStableAnchorPath e n = Some x \<Longrightarrow> evaluate e x = Inr [n]"
  unfolding tryStableAnchorPath_def Let_def
  by (auto simp: unique_and_valid_iff split: if_splits option.splits dest: find_SomeD)

lemma tryStableAttributePath_sound:
  "tryStableAttributePath e n = Some x \<Longrightarrow> evaluate e x = Inr [n]"
  unfolding tryStableAttributePath_def Let_def
  by (auto simp: unique_and_valid_iff split: if_splits option.splits dest: find_SomeD)

lemma tryStructuralPath_sound:
  "tryStructuralPath e n = Some x \<Longrightarrow> evaluate e x = Inr [n]"
  unfolding tryStructuralPath_def Let_def
  by (auto simp: unique_and_valid_iff split: if_splits option.splits)

lemma trySiblingRelationshipPath_sound:
  "trySiblingRelationshipPath e n = Some x \<Longrightarrow> evaluate e x = Inr [n]"
  unfolding trySiblingRelationshipPath_def Let_def
  by (auto simp: unique_and_valid_iff split: if_splits option.splits)

lemma simplifyPath_cases:
  "simplifyPath e x t = x \<or> evaluate e (simplifyPath e x t) = Inr [t]"
  unfolding simplifyPath_def
  by (auto simp: unique_and_valid_iff split: option.splits dest: find_SomeD)

lemma checked_Some:
  "checked e n p = Some x \<Longrightarrow> p = Some x \<and> validateSelector e x n"
  by (auto simp: checked_def split: option.splits if_splits)

lemma generate_by_cases:
  assumes "generate_by e n = Inr (s, x)"
  shows "(s = StableAnchor \<and> tryStableAnchorPath e n = Some x) \<or>
         (s = StableAttribute \<and> tryStableAttributePath e n = Some x) \<or>
         (s = Structural \<and> tryStructuralPath e n = Some x) \<or>
         (s = Sibling \<and> trySiblingRelationshipPath e n = Some x) \<or>
         (s = IncrementalBuildUp \<and>
            (\<exists>p. buildIncrementalPath e n = Inr (Some p) \<and> validateSelector e p n \<and>
                  x = simplifyPath e p n)) \<or>
         (s = FallbackPath \<and> x = simplifyPath e (buildMinimalSemanticPath e n) n)"
  using assms unfolding generate_by_def
  by (auto split: if_splits option.splits sum.splits dest!: checked_Some)

lemma simplifyPath_first:
  "validateSelector e x t \<Longrightarrow> validateSelector e (simplifyPath e x t) t"
  using simplifyPath_cases [of e x t] by (auto simp: validateSelector_iff)

text \<open>
  C1, as the code has it. When \<open>generate\<close> returns an expression through one of the
  five strategies, and not through the fallback, the evaluator answers it with at least
  one node and the first match is the requested element. For the first four strategies
  the answer is exactly that one node. The incremental strategy is accepted on the first
  match alone, so its path may match further nodes.
\<close>

theorem generate_first_match:
  "generate_by e n = Inr (s, x) \<and> s \<noteq> FallbackPath \<longrightarrow>
     (\<exists>rest. evaluate e x = Inr (n # rest)) \<and>
     (s \<noteq> IncrementalBuildUp \<longrightarrow> evaluate e x = Inr [n])"
proof (intro impI, elim conjE)
  assume g: "generate_by e n = Inr (s, x)" and s: "s \<noteq> FallbackPath"
  from generate_by_cases [OF g] s
  consider (early) "s \<noteq> IncrementalBuildUp" "evaluate e x = Inr [n]"
    | (incremental) p where "s = IncrementalBuildUp" "validateSelector e p n"
        "x = simplifyPath e p n"
    by (auto dest: tryStableAnchorPath_sound tryStableAttributePath_sound
          tryStructuralPath_sound trySiblingRelationshipPath_sound)
  then show "(\<exists>rest. evaluate e x = Inr (n # rest)) \<and>
             (s \<noteq> IncrementalBuildUp \<longrightarrow> evaluate e x = Inr [n])"
  proof cases
    case early
    then show ?thesis by simp
  next
    case incremental
    then show ?thesis using simplifyPath_first [of e p n] by (simp add: validateSelector_iff)
  qed
qed



lemma rejecting_throws_fields [simp]:
  "doc (rejecting_throws e) = doc e" "maxDepth (rejecting_throws e) = maxDepth e"
  "isTimeout (rejecting_throws e) = isTimeout e"
  by (simp_all add: rejecting_throws_def isTimeout_def fun_eq_iff)

lemma rejecting_throws_isUniqueSelector [simp]:
  "isUniqueSelector (rejecting_throws e) x = isUniqueSelector e x"
  by (simp add: rejecting_throws_def isUniqueSelector_def split: sum.splits)

lemma rejecting_throws_validateSelector [simp]:
  "validateSelector (rejecting_throws e) x t = validateSelector e x t"
  by (simp add: rejecting_throws_def validateSelector_def split: sum.splits)

lemma rejecting_throws_unique_and_valid [simp]:
  "unique_and_valid (rejecting_throws e) x t = unique_and_valid e x t"
  by (simp add: unique_and_valid_def)

lemma rejecting_throws_findPosition [simp]:
  "findPositionAmongSiblings (rejecting_throws e) x t = findPositionAmongSiblings e x t"
  by (simp add: rejecting_throws_def findPositionAmongSiblings_def split: sum.splits)

lemma rejecting_throws_strategies [simp]:
  "tryStableAnchorPath (rejecting_throws e) n = tryStableAnchorPath e n"
  "tryStableAttributePath (rejecting_throws e) n = tryStableAttributePath e n"
  "tryStructuralPath (rejecting_throws e) n = tryStructuralPath e n"
  "trySiblingRelationshipPath (rejecting_throws e) n = trySiblingRelationshipPath e n"
  by (simp_all add: tryStableAnchorPath_def tryStableAttributePath_def tryStructuralPath_def
        trySiblingRelationshipPath_def Let_def cong: option.case_cong if_cong)

lemma rejecting_throws_incremental_loop:
  "buildIncrementalPath_loop (rejecting_throws e) n seg cur depth segs =
   buildIncrementalPath_loop e n seg cur depth segs"
  by (induction cur arbitrary: depth segs) (simp_all add: Let_def cong: if_cong)

lemma rejecting_throws_incremental [simp]:
  "buildIncrementalPath (rejecting_throws e) n = buildIncrementalPath e n"
  by (induction n)
     (simp_all add: buildIncrementalPath_from_def rejecting_throws_incremental_loop Let_def
        cong: option.case_cong if_cong)

lemma rejecting_throws_fallback_loop:
  "buildMinimalSemanticPath_loop (rejecting_throws e) cur depth segs =
   buildMinimalSemanticPath_loop e cur depth segs"
  by (induction cur arbitrary: depth segs) (simp_all cong: if_cong)

lemma rejecting_throws_fallback [simp]:
  "buildMinimalSemanticPath (rejecting_throws e) n = buildMinimalSemanticPath e n"
  by (simp add: buildMinimalSemanticPath_def rejecting_throws_fallback_loop)

lemma rejecting_throws_simplifyPath [simp]:
  "simplifyPath (rejecting_throws e) x t = simplifyPath e x t"
  by (simp add: simplifyPath_def cong: option.case_cong if_cong)

lemma rejecting_throws_checked [simp]:
  "checked (rejecting_throws e) n p = checked e n p"
  by (simp add: checked_def cong: option.case_cong if_cong)





lemma generate_by_invalid:
  "\<not> isHTMLElement (doc e) n \<Longrightarrow> generate_by e n = Inl InvalidElement"
  by (simp add: generate_by_def)



text \<open>
  C1, as stated, fails. In the document of two paragraphs the first paragraph gets
  \<open>//body//p\<close> from the incremental strategy, and that expression matches both
  paragraphs.
\<close>

theorem generate_unique_counterexample:
  "generate_by two_paragraphs_host [0, 1] = Inr (IncrementalBuildUp, ''//body//p'') \<and>
   evaluate two_paragraphs_host ''//body//p'' = Inr [[0, 1], [0, 1, 1]]"
  by code_simp

theorem generate_first_match_witness:
  "generate_by two_price_lists_host [1, 0, 1] =
     Inr (Sibling, sibling_xpath ''Price'') \<and>
   Sibling \<noteq> FallbackPath \<and> Sibling \<noteq> IncrementalBuildUp \<and>
   evaluate two_price_lists_host (sibling_xpath ''Price'') = Inr [[1, 0, 1]]"
proof -
  have g: "generate_by two_price_lists_host [1, 0, 1] = Inr (Sibling, sibling_xpath ''Price'')"
    by code_simp
  from generate_first_match [of two_price_lists_host "[1, 0, 1]" Sibling "sibling_xpath ''Price''"] g
  show ?thesis by simp
qed

lemma str_includes_single: "str_includes [c] s \<longleftrightarrow> c \<in> set s"
  by (induction s) (auto simp: starts_with_def)

lemma replace_char_absent: "c \<notin> set s \<Longrightarrow> replace_char c rep s = s"
  by (induction s) (auto simp: replace_char_def)

lemma escapeXPath_one_kind:
  "\<not> (str_includes [dquote] v \<and> str_includes [squote] v) \<Longrightarrow> escapeXPath v = v"
  by (auto simp: escapeXPath_def str_includes_single replace_char_absent)

text \<open>
  C10 says that a candidate with an unescaped double quote is always rejected, and the
  code returns one. \<open>escapeXPath\<close> is to escape string values for XPath, and every
  caller wraps its result in double quotes; for a value with a double quote and no single
  quote its branch replaces single quotes, which changes nothing. The value
  \<open>x" or @name!="x\<close> so reaches the predicate as it is and becomes part of the
  expression: \<open>//li[@name="x" or @name!="x"]\<close> is well formed, selects the items that
  have a \<open>name\<close> attribute, and where the element is the only such item,
  \<open>generate\<close> returns it.
\<close>

theorem escapeXPath_unescaped_quote_returned:
  \<open>str_includes [dquote] quoted_name \<and> \<not> str_includes [squote] quoted_name \<and>
   escapeXPath quoted_name = quoted_name \<and>
   getAttribute (doc quoted_items_host) [1, 0, 1] ''name'' = Some quoted_name \<and>
   tryStableAttributePath quoted_items_host [1, 0, 1] =
     Some (''//'' @ attr_equals ''li'' ''name'' quoted_name) \<and>
   evaluate quoted_items_host ''//li[@name="x" or @name!="x"]'' = Inr [[1, 0, 1]] \<and>
   generate quoted_items_host [1, 0, 1] = Inr ''//li[@name="x" or @name!="x"]''\<close>
  by code_simp

lemma find_None: "(\<And>x. x \<in> set xs \<Longrightarrow> \<not> P x) \<Longrightarrow> List.find P xs = None"
  by (simp add: find_None_iff)

lemma item_list_facts:
  \<open>toLowerCase (tagName item_list [2, 0, 1]) = ''li''\<close>
  \<open>isHTMLElement item_list [2, 0, 1]\<close>
  \<open>findDistinctiveContainer item_list [2, 0, 1] = Some [0, 1]\<close>
  \<open>getDistinctiveSegment item_list [0, 1] = ''ul[@id="list1234XX"]''\<close>
  \<open>buildPathToTarget item_list [2, 0, 1] [0, 1] = Some ''li''\<close>
  \<open>string_of_nat 3 = ''3''\<close>
  \<open>isStableId ''list1234XX''\<close>
  \<open>element_id item_list [0, 1] = ''list1234XX''\<close>
  by code_simp+

text \<open>
  C2, as the code has it. For the third item of the list with id \<open>list1234XX\<close>, the
  minimal candidate \<open>//li\<close> is rejected, and so are the landmark candidates. The first
  strategy then walks to the list: its id matches none of the dynamic-id patterns, so
  \<open>isStableId\<close> takes it for stable and the list becomes the container. The strategy
  returns \<open>(//ul[@id="list1234XX"]//li)[3]\<close>, and \<open>generate\<close> returns it without
  reaching the stable-attribute strategy. This holds for every evaluator that answers the
  four kinds of expression consulted as XPath does on this document.
\<close>

theorem item_list_anchor:
  assumes d: "doc e = item_list"
    and li: "evaluate e ''//li'' = Inr [[0, 0, 1], [1, 0, 1], [2, 0, 1]]"
    and lm: "\<forall>landmark \<in> set semanticLandmarks. evaluate e (''//'' @ landmark @ ''//li'') = Inr []"
    and ul: \<open>evaluate e ''//ul[@id="list1234XX"]//li'' = Inr [[0, 0, 1], [1, 0, 1], [2, 0, 1]]\<close>
    and p3: \<open>evaluate e ''(//ul[@id="list1234XX"]//li)[3]'' = Inr [[2, 0, 1]]\<close>
  shows \<open>\<not> unique_and_valid e ''//li'' [2, 0, 1] \<and>
         findDistinctiveContainer (doc e) [2, 0, 1] = Some [0, 1] \<and>
         element_id (doc e) [0, 1] = ''list1234XX'' \<and> isStableId ''list1234XX'' \<and>
         generate_by e [2, 0, 1] = Inr (StableAnchor, ''(//ul[@id="list1234XX"]//li)[3]'')\<close>
proof -
  have a: "\<not> unique_and_valid e ''//li'' [2, 0, 1]"
    by (simp add: unique_and_valid_iff li)
  have b: "List.find (\<lambda>landmarkPath. unique_and_valid e landmarkPath [2, 0, 1])
             (map (\<lambda>landmark. ''//'' @ landmark @ ''//'' @ ''li'') semanticLandmarks) = None"
    by (rule find_None) (use lm in \<open>auto simp: unique_and_valid_iff\<close>)
  have c: \<open>findPositionAmongSiblings e ''//ul[@id="list1234XX"]//li'' [2, 0, 1] = Some 3\<close>
    by (simp add: findPositionAmongSiblings_def ul)
  have t: \<open>tryStableAnchorPath e [2, 0, 1] = Some ''(//ul[@id="list1234XX"]//li)[3]''\<close>
    unfolding tryStableAnchorPath_def Let_def d item_list_facts
    using a b c by (simp add: unique_and_valid_iff p3 item_list_facts del: One_nat_def)
  have g: \<open>generate_by e [2, 0, 1] = Inr (StableAnchor, ''(//ul[@id="list1234XX"]//li)[3]'')\<close>
    unfolding generate_by_def d t
    by (simp add: item_list_facts checked_def validateSelector_def p3 del: One_nat_def)
  from a g show ?thesis by (simp add: d item_list_facts del: One_nat_def)
qed

theorem item_list_anchor_witness:
  \<open>doc item_list_host = item_list \<and>
   evaluate item_list_host ''//li'' = Inr [[0, 0, 1], [1, 0, 1], [2, 0, 1]] \<and>
   list_all (\<lambda>landmark. evaluate item_list_host (''//'' @ landmark @ ''//li'') = Inr [])
     semanticLandmarks \<and>
   evaluate item_list_host ''//ul[@id="list1234XX"]//li'' = Inr [[0, 0, 1], [1, 0, 1], [2, 0, 1]] \<and>
   evaluate item_list_host ''(//ul[@id="list1234XX"]//li)[3]'' = Inr [[2, 0, 1]] \<and>
   generate_by item_list_host [2, 0, 1] = Inr (StableAnchor, ''(//ul[@id="list1234XX"]//li)[3]'')\<close>
proof -
  have h: \<open>doc item_list_host = item_list\<close>
    \<open>evaluate item_list_host ''//li'' = Inr [[0, 0, 1], [1, 0, 1], [2, 0, 1]]\<close>
    \<open>\<forall>landmark \<in> set semanticLandmarks.
      evaluate item_list_host (''//'' @ landmark @ ''//li'') = Inr []\<close>
    \<open>evaluate item_list_host ''//ul[@id="list1234XX"]//li'' = Inr [[0, 0, 1], [1, 0, 1], [2, 0, 1]]\<close>
    \<open>evaluate item_list_host ''(//ul[@id="list1234XX"]//li)[3]'' = Inr [[2, 0, 1]]\<close>
    by code_simp+
  from item_list_anchor [OF h] h show ?thesis by (simp add: list_all_iff)
qed

text \<open>
  C2, as stated, fails: \<open>//li[@data-testid="item-target"]\<close> is unique and valid, and
  still \<open>generate\<close> returns the anchored expression, in which the id of the list
  appears.
\<close>

theorem item_list_counterexample:
  \<open>evaluate item_list_host ''//li[@data-testid="item-target"]'' = Inr [[2, 0, 1]] \<and>
   generate item_list_host [2, 0, 1] \<noteq> Inr ''//li[@data-testid="item-target"]'' \<and>
   generate item_list_host [2, 0, 1] = Inr ''(//ul[@id="list1234XX"]//li)[3]'' \<and>
   str_includes ''list1234XX'' ''(//ul[@id="list1234XX"]//li)[3]''\<close>
  by code_simp


text \<open>
  C6, as the code has it. For a \<open>dd\<close> whose previous element sibling is a \<open>dt\<close> with
  trimmed text \<open>t\<close> of 4 to 29 characters that is not user-data-like, the sibling
  strategy proposes \<open>//dt[contains(text(), "...")]/following-sibling::dd[1]\<close> around
  \<open>escapeXPath t\<close>, which is \<open>t\<close> itself unless \<open>t\<close> has both kinds of quote, and
  returns it when it is unique and resolves to the \<open>dd\<close>. \<open>generate\<close> returns it
  when, in addition, none of the three strategies that run before it produced a
  candidate; it is then preferred to any incremental path.
\<close>

theorem sibling_relationship_path:
  assumes prev: "previousElementSibling (doc e) n = Some prev"
    and dd: "toLowerCase (tagName (doc e) n) = ''dd''"
    and dt: "toLowerCase (tagName (doc e) prev) = ''dt''"
    and t: "t = trim (textContent (doc e) prev)"
    and len: "3 < length t" "length t < 30"
    and user: "\<not> looksLikeUserData t"
    and uniq: "evaluate e (sibling_xpath t) = Inr [n]"
  shows "trySiblingRelationshipPath e n = Some (sibling_xpath t) \<and>
         (\<not> (str_includes [dquote] t \<and> str_includes [squote] t) \<longrightarrow>
            sibling_xpath t =
              ''//dt[contains(text(), '' @ [dquote] @ t @ [dquote] @
              '')]/following-sibling::dd[1]'') \<and>
         (isHTMLElement (doc e) n \<and> tryStableAnchorPath e n = None \<and>
          tryStableAttributePath e n = None \<and> tryStructuralPath e n = None \<longrightarrow>
            generate_by e n = Inr (Sibling, sibling_xpath t))"
proof -
  have ne: "t \<noteq> []" using len by auto
  have s: "trySiblingRelationshipPath e n = Some (sibling_xpath t)"
    using ne len user uniq unfolding t
    by (simp add: trySiblingRelationshipPath_def Let_def prev dd dt unique_and_valid_iff)
  have x: "sibling_xpath t \<noteq> []" by (simp add: sibling_xpath_def)
  have g: "generate_by e n = Inr (Sibling, sibling_xpath t)"
    if "isHTMLElement (doc e) n" "tryStableAnchorPath e n = None"
       "tryStableAttributePath e n = None" "tryStructuralPath e n = None"
    unfolding generate_by_def using that s x
    by (simp add: checked_def validateSelector_def uniq)
  show ?thesis
    using s g by (auto simp: sibling_xpath_def escapeXPath_one_kind)
qed

theorem sibling_relationship_path_witness:
  "previousElementSibling (doc two_price_lists_host) [1, 0, 1] = Some [0, 0, 1] \<and>
   toLowerCase (tagName (doc two_price_lists_host) [1, 0, 1]) = ''dd'' \<and>
   toLowerCase (tagName (doc two_price_lists_host) [0, 0, 1]) = ''dt'' \<and>
   ''Price'' = trim (textContent (doc two_price_lists_host) [0, 0, 1]) \<and>
   \<not> looksLikeUserData ''Price'' \<and>
   evaluate two_price_lists_host (sibling_xpath ''Price'') = Inr [[1, 0, 1]] \<and>
   tryStableAnchorPath two_price_lists_host [1, 0, 1] = None \<and>
   tryStableAttributePath two_price_lists_host [1, 0, 1] = None \<and>
   tryStructuralPath two_price_lists_host [1, 0, 1] = None \<and>
   trySiblingRelationshipPath two_price_lists_host [1, 0, 1] = Some (sibling_xpath ''Price'') \<and>
   sibling_xpath ''Price'' =
     ''//dt[contains(text(), '' @ [dquote] @ ''Price'' @ [dquote] @ '')]/following-sibling::dd[1]'' \<and>
   generate_by two_price_lists_host [1, 0, 1] = Inr (Sibling, sibling_xpath ''Price'')"
proof -
  have h: "previousElementSibling (doc two_price_lists_host) [1, 0, 1] = Some [0, 0, 1]"
    "toLowerCase (tagName (doc two_price_lists_host) [1, 0, 1]) = ''dd''"
    "toLowerCase (tagName (doc two_price_lists_host) [0, 0, 1]) = ''dt''"
    "''Price'' = trim (textContent (doc two_price_lists_host) [0, 0, 1])"
    "3 < length ''Price''" "length ''Price'' < 30"
    "\<not> looksLikeUserData ''Price''"
    "evaluate two_price_lists_host (sibling_xpath ''Price'') = Inr [[1, 0, 1]]"
    by code_simp+
  have q: "\<not> (str_includes [dquote] ''Price'' \<and> str_includes [squote] ''Price'')"
    and v: "isHTMLElement (doc two_price_lists_host) [1, 0, 1]"
    and n: "tryStableAnchorPath two_price_lists_host [1, 0, 1] = None"
      "tryStableAttributePath two_price_lists_host [1, 0, 1] = None"
      "tryStructuralPath two_price_lists_host [1, 0, 1] = None"
    by code_simp+
  from sibling_relationship_path [OF h] q v n h show ?thesis by blast
qed

text \<open>
  C6, as stated, fails: for \<open><dl><dt>Price</dt><dd>$42</dd></dl>\<close> the sibling
  expression is unique and resolves to the \<open>dd\<close>, but the first strategy already
  accepts \<open>//dd\<close> and \<open>generate\<close> returns that.
\<close>

theorem sibling_relationship_counterexample:
  "previousElementSibling (doc price_list_host) [1, 0, 1] = Some [0, 0, 1] \<and>
   toLowerCase (tagName (doc price_list_host) [1, 0, 1]) = ''dd'' \<and>
   toLowerCase (tagName (doc price_list_host) [0, 0, 1]) = ''dt'' \<and>
   trim (textContent (doc price_list_host) [0, 0, 1]) = ''Price'' \<and>
   evaluate price_list_host (sibling_xpath ''Price'') = Inr [[1, 0, 1]] \<and>
   generate price_list_host [1, 0, 1] = Inr ''//dd''"
  by code_simp


section \<open>Properties of the path simplifier\<close>

lemma split_dslash_nonempty: "split_dslash s \<noteq> []"
  by (induction s rule: split_dslash.induct) (auto split: list.splits)

lemma split_dslash_first:
  "split_dslash (a # s) = part # parts \<Longrightarrow>
     (part = [] \<and> a = CHR ''/'' \<and> parts \<noteq> []) \<or> (\<exists>q. part = a # q)"
  by (cases s) (auto split: if_splits list.splits simp: split_dslash_nonempty)

lemma split_dslash_pieces: "p \<in> set (split_dslash s) \<Longrightarrow> no_dslash p"
proof (induction s arbitrary: p rule: split_dslash.induct)
  case 1
  then show ?case by simp
next
  case (2 c)
  then show ?case by simp
next
  case (3 c c' cs)
  show ?case
  proof (cases "c = CHR ''/'' \<and> c' = CHR ''/''")
    case True
    with 3 show ?thesis by auto
  next
    case False
    obtain part parts where sp: "split_dslash (c' # cs) = part # parts"
      using split_dslash_nonempty [of "c' # cs"] by (cases "split_dslash (c' # cs)") auto
    from False sp 3(3) have "p = c # part \<or> p \<in> set parts" by auto
    then show ?thesis
    proof
      assume p: "p = c # part"
      have np: "no_dslash part" using 3(2) [OF False, of part] sp by simp
      from split_dslash_first [OF sp] show ?thesis
      proof
        assume "part = [] \<and> c' = CHR ''/'' \<and> parts \<noteq> []"
        then show ?thesis using p by simp
      next
        assume "\<exists>q. part = c' # q"
        then show ?thesis using p np False by auto
      qed
    next
      assume "p \<in> set parts"
      then show ?thesis using 3(2) [OF False, of p] sp by simp
    qed
  qed
qed

lemma split_dslash_inner: "p \<in> set (butlast (split_dslash s)) \<Longrightarrow> p = [] \<or> last p \<noteq> CHR ''/''"
proof (induction s arbitrary: p rule: split_dslash.induct)
  case 1
  then show ?case by simp
next
  case (2 c)
  then show ?case by simp
next
  case (3 c c' cs)
  show ?case
  proof (cases "c = CHR ''/'' \<and> c' = CHR ''/''")
    case True
    with 3(3) have "p = [] \<or> p \<in> set (butlast (split_dslash cs))"
      by (auto simp: split_dslash_nonempty)
    with 3(1) [OF True] show ?thesis by auto
  next
    case False
    obtain part parts where sp: "split_dslash (c' # cs) = part # parts"
      using split_dslash_nonempty [of "c' # cs"] by (cases "split_dslash (c' # cs)") auto
    from False sp 3(3) have ne: "parts \<noteq> []" and "p = c # part \<or> p \<in> set (butlast parts)"
      by (auto split: if_splits)
    then show ?thesis
    proof (elim disjE)
      assume p: "p = c # part"
      have "part \<in> set (butlast (split_dslash (c' # cs)))" using sp ne by simp
      from 3(2) [OF False this] have l: "part = [] \<or> last part \<noteq> CHR ''/''" .
      from split_dslash_first [OF sp] show ?thesis
      proof
        assume "part = [] \<and> c' = CHR ''/'' \<and> parts \<noteq> []"
        then show ?thesis using p False by simp
      next
        assume "\<exists>q. part = c' # q"
        then show ?thesis using p l by auto
      qed
    next
      assume "p \<in> set (butlast parts)"
      then have "p \<in> set (butlast (split_dslash (c' # cs)))" using sp ne by simp
      from 3(2) [OF False this] show ?thesis .
    qed
  qed
qed

lemma butlast_filter_subset: "set (butlast (filter P xs)) \<subseteq> set (filter P (butlast xs))"
proof (cases xs rule: rev_cases)
  case Nil
  then show ?thesis by simp
next
  case (snoc ys y)
  then show ?thesis by (auto dest: in_set_butlastD)
qed

lemma proper_segments_of: "proper_segments (segments_of x)"
proof -
  have a: "p \<noteq> [] \<and> no_dslash p" if "p \<in> set (segments_of x)" for p
    using that split_dslash_pieces [of p x] by (auto simp: segments_of_def)
  have b: "last p \<noteq> CHR ''/''" if "p \<in> set (butlast (segments_of x))" for p
  proof -
    from that butlast_filter_subset [of "\<lambda>s. s \<noteq> []" "split_dslash x"]
    have "p \<noteq> []" "p \<in> set (butlast (split_dslash x))"
      by (auto simp: segments_of_def)
    with split_dslash_inner [of p x] show ?thesis by auto
  qed
  from a b show ?thesis unfolding proper_segments_def by blast
qed

lemma split_dslash_single: "no_dslash p \<Longrightarrow> split_dslash p = [p]"
  by (induction p rule: split_dslash.induct) auto

lemma split_dslash_append:
  "no_dslash p \<Longrightarrow> p \<noteq> [] \<Longrightarrow> last p \<noteq> CHR ''/'' \<Longrightarrow>
     split_dslash (p @ CHR ''/'' # CHR ''/'' # s) = p # split_dslash s"
proof (induction p rule: split_dslash.induct)
  case 1
  then show ?case by simp
next
  case (2 c)
  then show ?case by simp
next
  case (3 c c' cs)
  then show ?case by (auto split: if_splits)
qed

lemma split_dslash_join:
  "proper_segments parts \<Longrightarrow> parts \<noteq> [] \<Longrightarrow> split_dslash (join ''//'' parts) = parts"
proof (induction parts)
  case Nil
  then show ?case by simp
next
  case (Cons x xs)
  show ?case
  proof (cases xs)
    case Nil
    with Cons.prems show ?thesis by (simp add: proper_segments_def split_dslash_single)
  next
    case (Cons y ys)
    from Cons.prems Cons have x: "no_dslash x" "x \<noteq> []" "last x \<noteq> CHR ''/''"
      and rest: "proper_segments xs"
      by (auto simp: proper_segments_def)
    from Cons.IH rest Cons have "split_dslash (join ''//'' xs) = xs" by simp
    with split_dslash_append [OF x] Cons show ?thesis by simp
  qed
qed

lemma segments_of_from_segments:
  "proper_segments parts \<Longrightarrow> segments_of (from_segments parts) = parts"
proof (cases "parts = []")
  case True
  then show ?thesis by (simp add: segments_of_def from_segments_def)
next
  case False
  assume p: "proper_segments parts"
  have "filter (\<lambda>s. s \<noteq> []) parts = parts"
    using p by (auto simp: proper_segments_def filter_id_conv)
  with split_dslash_join [OF p False] show ?thesis
    by (simp add: segments_of_def from_segments_def)
qed


lemma map_nth_upt_take: "k \<le> length ps \<Longrightarrow> map (\<lambda>i. ps ! i) [0 ..< k] = take k ps"
  by (simp add: list_eq_iff_nth_eq)

lemma map_nth_upt_drop: "map (\<lambda>i. ps ! i) [j ..< length ps] = drop j ps"
  by (simp add: list_eq_iff_nth_eq)

lemma without_index_eq:
  assumes "k < length ps"
  shows "without_index ps k = take k ps @ drop (Suc k) ps"
proof -
  have u: "[0 ..< length ps] = [0 ..< k] @ k # [Suc k ..< length ps]"
    using assms by (metis less_imp_le_nat upt_add_eq_append upt_conv_Cons le_add_diff_inverse zero_le)
  have f: "filter (\<lambda>i. i \<noteq> k) [0 ..< length ps] = [0 ..< k] @ [Suc k ..< length ps]"
    unfolding u by (auto simp: filter_id_conv)
  show ?thesis
    unfolding without_index_def f using assms
    by (simp add: map_nth_upt_take map_nth_upt_drop)
qed

lemma shortened_without_index: "0 < k \<Longrightarrow> k < length ps - 1 \<Longrightarrow> shortened ps (without_index ps k)"
proof -
  assume k: "0 < k" "k < length ps - 1"
  then have kl: "k < length ps" and ne: "drop (Suc k) ps \<noteq> []" by auto
  have b: "butlast (take k ps @ drop (Suc k) ps) = take k (butlast ps) @ drop (Suc k) (butlast ps)"
    using ne k by (simp add: butlast_append butlast_drop take_butlast)
  show ?thesis
    unfolding shortened_def without_index_eq [OF kl] b using kl
    by (auto dest: in_set_takeD in_set_dropD)
qed

lemma shortened_drop: "1 \<le> i \<Longrightarrow> i < length ps - 1 \<Longrightarrow> shortened ps (drop i ps)"
  unfolding shortened_def by (auto simp: butlast_drop dest: in_set_dropD)

lemma shortened_first_then_after: "1 \<le> i \<Longrightarrow> i < length ps - 1 \<Longrightarrow> shortened ps (first_then_after ps i)"
proof -
  assume i: "1 \<le> i" "i < length ps - 1"
  have bl: "butlast ps \<noteq> []"
  proof
    assume "butlast ps = []"
    then have "length (butlast ps) = 0" by (simp only: list.size)
    with i show False by simp
  qed
  from i bl have ne: "ps \<noteq> []" "butlast ps \<noteq> []" "drop (i + 1) ps \<noteq> []" by auto
  have "hd (butlast ps @ [last ps]) = hd (butlast ps)" using ne(2) by (rule hd_append2)
  then have "hd ps = hd (butlast ps)" using ne by simp
  then have h: "hd ps \<in> set (butlast ps)" using ne by simp
  have b: "butlast (first_then_after ps i) = hd ps # drop (i + 1) (butlast ps)"
    using ne by (simp add: first_then_after_def butlast_drop)
  show ?thesis
    unfolding shortened_def b using ne h i
    by (auto simp: first_then_after_def dest: in_set_dropD in_set_butlastD)
qed

lemma shortened_anchor:
  "3 < length ps \<Longrightarrow> a < length ps - 2 \<Longrightarrow>
     shortened ps (ps ! a # drop (length ps - 2) ps)"
proof -
  assume n: "3 < length ps" and a: "a < length ps - 2"
  then have ne: "drop (length ps - 2) ps \<noteq> []" by auto
  have h: "ps ! a \<in> set (butlast ps)"
    using a by (metis (no_types, lifting) nth_butlast nth_mem length_butlast less_diff_conv
        add_lessD1 one_add_one less_imp_diff_less diff_diff_left)
  have b: "butlast (ps ! a # drop (length ps - 2) ps) = ps ! a # drop (length ps - 2) (butlast ps)"
    using ne by (simp add: butlast_drop)
  show ?thesis
    unfolding shortened_def b using h a n
    by (auto dest: in_set_dropD in_set_butlastD)
qed

lemma findIndex_bounds: "findIndex P xs < int (length xs)"
  by (induction xs) (auto simp: Let_def)

lemma candidates_shortened:
  assumes "c \<in> set (simplifyCandidates ps)"
  shows "shortened ps c"
proof -
  let ?n = "length ps"
  from assms consider
      (drop_one) k where "c = without_index ps k" "0 < k" "k < ?n - 1"
    | (keep_first) i where "c = first_then_after ps i" "1 \<le> i" "i < ?n - 1"
    | (front) i where "c = drop i ps" "1 \<le> i" "i < ?n - 1"
    | (anchor) "c = ps ! nat (findAnchorInPath ps) # drop (?n - 2) ps" "3 < ?n"
        "0 \<le> findAnchorInPath ps" "findAnchorInPath ps < int ?n - 2"
    unfolding simplifyCandidates_def Let_def
    by (auto split: if_splits)
  then show ?thesis
  proof cases
    case drop_one
    then show ?thesis by (simp add: shortened_without_index)
  next
    case keep_first
    then show ?thesis by (simp add: shortened_first_then_after)
  next
    case front
    then show ?thesis by (simp add: shortened_drop)
  next
    case anchor
    then have "nat (findAnchorInPath ps) < ?n - 2" by linarith
    with anchor show ?thesis by (simp add: shortened_anchor)
  qed
qed

lemma shortened_proper:
  "proper_segments ps \<Longrightarrow> shortened ps c \<Longrightarrow> proper_segments c"
  unfolding proper_segments_def shortened_def by blast


lemma candidate_segments:
  assumes "c \<in> set (simplifyCandidates (segments_of x))"
  shows "segments_of (from_segments c) = c \<and> length c < length (segments_of x)"
proof -
  from candidates_shortened [OF assms] have s: "shortened (segments_of x) c" .
  from shortened_proper [OF proper_segments_of s] have "proper_segments c" .
  then have "segments_of (from_segments c) = c" by (rule segments_of_from_segments)
  with s show ?thesis by (simp add: shortened_def)
qed

text \<open>
  C3. \<open>simplifyPath\<close> returns its input unchanged, or an expression that splits into
  strictly fewer segments and that the evaluator answers with exactly the target. So the
  result never has more segments than the input, and when no candidate of any pass is
  unique and valid the input comes back unchanged.
\<close>

theorem simplifyPath_shorter_or_unchanged:
  "(simplifyPath e x t = x \<or>
      (length (segments_of (simplifyPath e x t)) < length (segments_of x) \<and>
       evaluate e (simplifyPath e x t) = Inr [t])) \<and>
   length (segments_of (simplifyPath e x t)) \<le> length (segments_of x) \<and>
   ((\<forall>c \<in> set (simplifyCandidates (segments_of x)). \<not> unique_and_valid e (from_segments c) t) \<longrightarrow>
      simplifyPath e x t = x)"
proof -
  let ?found = "List.find (\<lambda>simplified. unique_and_valid e simplified t)
                  (map from_segments (simplifyCandidates (segments_of x)))"
  have a: "simplifyPath e x t = x \<or>
      (length (segments_of (simplifyPath e x t)) < length (segments_of x) \<and>
       evaluate e (simplifyPath e x t) = Inr [t])"
  proof (cases ?found)
    case None
    then show ?thesis by (simp add: simplifyPath_def)
  next
    case (Some s)
    then have "unique_and_valid e s t"
      and "s \<in> set (map from_segments (simplifyCandidates (segments_of x)))"
      by (auto simp: find_Some_iff)
    then obtain c where c: "c \<in> set (simplifyCandidates (segments_of x))" "s = from_segments c"
      and v: "evaluate e s = Inr [t]"
      by (auto simp: unique_and_valid_iff)
    from candidate_segments [OF c(1)] c(2)
    have "length (segments_of s) < length (segments_of x)" by simp
    moreover have "simplifyPath e x t = x \<or> simplifyPath e x t = s"
      using Some by (simp add: simplifyPath_def)
    ultimately show ?thesis using v by auto
  qed
  have b: "simplifyPath e x t = x"
    if "\<forall>c \<in> set (simplifyCandidates (segments_of x)). \<not> unique_and_valid e (from_segments c) t"
  proof -
    from that have "?found = None" by (auto simp: find_None_iff)
    then show ?thesis by (simp add: simplifyPath_def)
  qed
  from a have "length (segments_of (simplifyPath e x t)) \<le> length (segments_of x)" by auto
  with a b show ?thesis by blast
qed

theorem simplifyPath_shorter_or_unchanged_witness:
  \<open>simplifyPath nested_blocks_host ''//body//div[2]//div[@role="x"]//p'' [0, 0, 1, 1] =
     ''//div[@role="x"]//p'' \<and>
   length (segments_of ''//div[@role="x"]//p'') <
     length (segments_of ''//body//div[2]//div[@role="x"]//p'') \<and>
   evaluate nested_blocks_host ''//div[@role="x"]//p'' = Inr [[0, 0, 1, 1]] \<and>
   list_all
     (\<lambda>c. \<not> unique_and_valid (nested_blocks_host\<lparr>evaluate := \<lambda>x. Inl EvaluationError\<rparr>)
               (from_segments c) [0, 0, 1, 1])
     (simplifyCandidates (segments_of ''//body//div[2]//div[@role="x"]//p'')) \<and>
   simplifyPath (nested_blocks_host\<lparr>evaluate := \<lambda>x. Inl EvaluationError\<rparr>)
     ''//body//div[2]//div[@role="x"]//p'' [0, 0, 1, 1] = ''//body//div[2]//div[@role="x"]//p''\<close>
proof -
  let ?x = \<open>''//body//div[2]//div[@role="x"]//p''\<close>
  let ?e = "nested_blocks_host\<lparr>evaluate := \<lambda>x. Inl EvaluationError\<rparr>"
  have r: \<open>simplifyPath nested_blocks_host ?x [0, 0, 1, 1] = ''//div[@role="x"]//p''\<close>
    by code_simp
  have d: \<open>''//div[@role="x"]//p'' \<noteq> ?x\<close> by simp
  have n: "\<forall>c \<in> set (simplifyCandidates (segments_of ?x)).
             \<not> unique_and_valid ?e (from_segments c) [0, 0, 1, 1]"
    by (simp add: unique_and_valid_def isUniqueSelector_def)
  from simplifyPath_shorter_or_unchanged [of nested_blocks_host ?x "[0, 0, 1, 1]"] r d
  have "length (segments_of ''//div[@role=\"x\"]//p'') < length (segments_of ?x)"
    and "evaluate nested_blocks_host ''//div[@role=\"x\"]//p'' = Inr [[0, 0, 1, 1]]"
    by auto
  moreover from simplifyPath_shorter_or_unchanged [of ?e ?x "[0, 0, 1, 1]"] n
  have "simplifyPath ?e ?x [0, 0, 1, 1] = ?x" by blast
  ultimately show ?thesis using r n by (simp add: list_all_iff)
qed

text \<open>
  C4 describes what the comments of \<open>simplifyPath\<close> promise, and the code breaks it. The
  fallback path of the paragraph \<open>T\<close> in the document of nested blocks is
  \<open>//body//div[2]//div[@role="x"]//p\<close>; its first positional segment is \<open>div[2]\<close>. The
  pass that removes segments from the front skips the indices up to the first positional
  segment and tries the ones behind it, so it cuts \<open>div[2]\<close> off, and the result
  \<open>//div[@role="x"]//p\<close> is returned.
\<close>

theorem simplifyPath_removes_first_positional:
  \<open>buildMinimalSemanticPath nested_blocks_host [0, 0, 1, 1] = ''//body//div[2]//div[@role="x"]//p'' \<and>
   segments_of ''//body//div[2]//div[@role="x"]//p'' =
     [''body'', ''div[2]'', ''div[@role="x"]'', ''p''] \<and>
   findIndex hasPositionalIndex (segments_of ''//body//div[2]//div[@role="x"]//p'') = 1 \<and>
   simplifyPath nested_blocks_host ''//body//div[2]//div[@role="x"]//p'' [0, 0, 1, 1] =
     ''//div[@role="x"]//p'' \<and>
   ''div[2]'' \<notin> set (segments_of ''//div[@role="x"]//p'') \<and>
   generate nested_blocks_host [0, 0, 1, 1] = Inr ''//div[@role="x"]//p''\<close>
  by code_simp


section \<open>Properties of the fallback builder\<close>

lemma loop_emits:
  "\<exists>nodes. buildMinimalSemanticPath_loop e cur depth segs =
              map (getMinimalSegment (doc e)) nodes @ segs \<and>
           set nodes \<subseteq> set (cur # ancestors_of cur) \<and>
           (\<forall>a \<in> set nodes. element_id (doc e) a = [] \<or> isStableId (element_id (doc e) a))"
proof (induction cur arbitrary: depth segs)
  case Nil
  show ?case by (rule exI [of _ "[]"]) simp
next
  case (Cons i p)
  let ?seg = "getMinimalSegment (doc e)"
  let ?stable = "\<lambda>a. element_id (doc e) a = [] \<or> isStableId (element_id (doc e) a)"
  have stop: ?case if "buildMinimalSemanticPath_loop e (i # p) depth segs = segs"
    using that by (intro exI [of _ "[]"]) simp
  have skip: ?case
    if "buildMinimalSemanticPath_loop e (i # p) depth segs =
        buildMinimalSemanticPath_loop e p (Suc depth) segs"
  proof -
    from Cons.IH [of "Suc depth" segs] obtain nodes where
      "buildMinimalSemanticPath_loop e p (Suc depth) segs = map ?seg nodes @ segs"
      "set nodes \<subseteq> set (p # ancestors_of p)" "\<forall>a \<in> set nodes. ?stable a"
      by blast
    with that show ?thesis by (intro exI [of _ nodes]) auto
  qed
  have landmark: ?case
    if "buildMinimalSemanticPath_loop e (i # p) depth segs = ?seg (i # p) # segs"
       "?stable (i # p)"
    using that by (intro exI [of _ "[i # p]"]) simp
  have emit: ?case
    if "buildMinimalSemanticPath_loop e (i # p) depth segs =
        buildMinimalSemanticPath_loop e p (Suc depth) (?seg (i # p) # segs)"
       "?stable (i # p)"
  proof -
    from Cons.IH [of "Suc depth" "?seg (i # p) # segs"] obtain nodes where
      "buildMinimalSemanticPath_loop e p (Suc depth) (?seg (i # p) # segs) =
         map ?seg nodes @ ?seg (i # p) # segs"
      "set nodes \<subseteq> set (p # ancestors_of p)" "\<forall>a \<in> set nodes. ?stable a"
      by blast
    with that show ?thesis by (intro exI [of _ "nodes @ [i # p]"]) auto
  qed
  show ?case
  proof (cases "\<not> depth < maxDepth e \<or> isTimeout e FallbackPath depth")
    case True
    then show ?thesis by (intro stop) auto
  next
    case run: False
    show ?thesis
    proof (cases "toLowerCase (tagName (doc e) (i # p)) \<in> set implicitElements \<or>
                  (element_id (doc e) (i # p) \<noteq> [] \<and> \<not> isStableId (element_id (doc e) (i # p)))")
      case True
      with run show ?thesis by (intro skip) auto
    next
      case False
      then have st: "?stable (i # p)"
        and ni: "toLowerCase (tagName (doc e) (i # p)) \<notin> set implicitElements"
        by auto
      show ?thesis
      proof (cases "toLowerCase (tagName (doc e) (i # p)) \<in> set semanticLandmarks")
        case True
        have "buildMinimalSemanticPath_loop e (i # p) depth segs = ?seg (i # p) # segs"
          using run ni st True by auto
        then show ?thesis using st by (rule landmark)
      next
        case False
        have "buildMinimalSemanticPath_loop e (i # p) depth segs =
              buildMinimalSemanticPath_loop e p (Suc depth) (?seg (i # p) # segs)"
          using run ni st False by auto
        then show ?thesis using st by (rule emit)
      qed
    qed
  qed
qed

lemma unstable_target_first_step:
  assumes "element_id (doc e) (i # p) \<noteq> []" "\<not> isStableId (element_id (doc e) (i # p))"
  shows "buildMinimalSemanticPath_loop e (i # p) 0 [] = [] \<or>
         buildMinimalSemanticPath_loop e (i # p) 0 [] = buildMinimalSemanticPath_loop e p (Suc 0) []"
  using assms by simp

text \<open>
  C9. In the fallback builder an element whose id matches a dynamic-id pattern is passed
  over without a segment, the target included. So for a target with an unstable id the
  fallback expression is made of the minimal segments of ancestors of the target only,
  none of them with an unstable id; its last segment, when it has one, is the segment of
  an ancestor and not of the target.
\<close>

theorem fallback_skips_unstable_target:
  "element_id (doc e) n \<noteq> [] \<and> \<not> isStableId (element_id (doc e) n) \<longrightarrow>
     (\<exists>nodes. buildMinimalSemanticPath e n = from_segments (map (getMinimalSegment (doc e)) nodes) \<and>
        set nodes \<subseteq> set (ancestors_of n) \<and>
        (nodes \<noteq> [] \<longrightarrow> last nodes \<in> set (ancestors_of n)) \<and>
        (\<forall>a \<in> set nodes. element_id (doc e) a = [] \<or> isStableId (element_id (doc e) a)))"
proof (intro impI, elim conjE)
  assume u: "element_id (doc e) n \<noteq> []" "\<not> isStableId (element_id (doc e) n)"
  let ?seg = "getMinimalSegment (doc e)"
  have "\<exists>nodes. buildMinimalSemanticPath_loop e n 0 [] = map ?seg nodes \<and>
          set nodes \<subseteq> set (ancestors_of n) \<and>
          (\<forall>a \<in> set nodes. element_id (doc e) a = [] \<or> isStableId (element_id (doc e) a))"
  proof (cases n)
    case Nil
    then show ?thesis by (intro exI [of _ "[]"]) simp
  next
    case (Cons i p)
    from unstable_target_first_step [of e i p] u Cons
    consider "buildMinimalSemanticPath_loop e n 0 [] = []"
      | "buildMinimalSemanticPath_loop e n 0 [] = buildMinimalSemanticPath_loop e p (Suc 0) []"
      by auto
    then show ?thesis
    proof cases
      case 1
      then show ?thesis by (intro exI [of _ "[]"]) simp
    next
      case 2
      from loop_emits [of e p "Suc 0" "[]"] obtain nodes where
        "buildMinimalSemanticPath_loop e p (Suc 0) [] = map ?seg nodes"
        "set nodes \<subseteq> set (p # ancestors_of p)"
        "\<forall>a \<in> set nodes. element_id (doc e) a = [] \<or> isStableId (element_id (doc e) a)"
        by auto
      with 2 Cons show ?thesis by (intro exI [of _ nodes]) auto
    qed
  qed
  then obtain nodes where n: "buildMinimalSemanticPath_loop e n 0 [] = map ?seg nodes"
    "set nodes \<subseteq> set (ancestors_of n)"
    "\<forall>a \<in> set nodes. element_id (doc e) a = [] \<or> isStableId (element_id (doc e) a)"
    by blast
  have "nodes \<noteq> [] \<longrightarrow> last nodes \<in> set (ancestors_of n)"
    using n(2) last_in_set by blast
  with n show "\<exists>nodes. buildMinimalSemanticPath e n = from_segments (map ?seg nodes) \<and>
        set nodes \<subseteq> set (ancestors_of n) \<and>
        (nodes \<noteq> [] \<longrightarrow> last nodes \<in> set (ancestors_of n)) \<and>
        (\<forall>a \<in> set nodes. element_id (doc e) a = [] \<or> isStableId (element_id (doc e) a))"
    unfolding buildMinimalSemanticPath_def by (intro exI [of _ nodes]) simp
qed


theorem fallback_skips_unstable_target_witness:
  "element_id (doc generated_block_host) [0, 1] \<noteq> [] \<and>
   \<not> isStableId (element_id (doc generated_block_host) [0, 1]) \<and>
   buildMinimalSemanticPath generated_block_host [0, 1] = ''//body'' \<and>
   (\<exists>nodes. buildMinimalSemanticPath generated_block_host [0, 1] =
              from_segments (map (getMinimalSegment (doc generated_block_host)) nodes) \<and>
      set nodes \<subseteq> set (ancestors_of [0, 1]) \<and>
      (nodes \<noteq> [] \<longrightarrow> last nodes \<in> set (ancestors_of [0, 1])) \<and>
      (\<forall>a \<in> set nodes. element_id (doc generated_block_host) a = [] \<or>
                         isStableId (element_id (doc generated_block_host) a)))"
proof -
  have u: "element_id (doc generated_block_host) [0, 1] \<noteq> []"
          "\<not> isStableId (element_id (doc generated_block_host) [0, 1])"
    and r: "buildMinimalSemanticPath generated_block_host [0, 1] = ''//body''"
    by code_simp+
  from fallback_skips_unstable_target [of generated_block_host "[0, 1]"] u r
  show ?thesis by blast
qed


end
